theory Spec2Isabelle
  imports Complex_Main
begin

section \<open>Floating-point values\<close>

text \<open>
  The scripts compute with Python floats and numpy float64 arrays. A value is modelled as
  a finite number, one of the two infinities, or NaN; NaN is what the scripts use for a
  missing measurement (\<^verbatim>\<open>float("nan")\<close>). Finite values are exact reals: rounding,
  overflow and the sign of zero are not modelled.
\<close>

datatype pyfloat = Fl real | PInf | NInf | NaN

datatype py_error = ZeroDivisionError | ValueError | TypeError | KeyError | IndexError
  | SystemExit | StatisticsError | LinAlgError

fun isnan :: "pyfloat \<Rightarrow> bool" where
  "isnan NaN = True"
| "isnan _ = False"

fun isfinite :: "pyfloat \<Rightarrow> bool" where
  "isfinite (Fl _) = True"
| "isfinite _ = False"

text \<open>\<^verbatim>\<open>a < b\<close> and \<^verbatim>\<open>a > b\<close> on floats: every comparison with NaN is false.\<close>

fun flt :: "pyfloat \<Rightarrow> pyfloat \<Rightarrow> bool" where
  "flt NaN _ = False"
| "flt _ NaN = False"
| "flt (Fl a) (Fl b) = (a < b)"
| "flt NInf NInf = False"
| "flt NInf _ = True"
| "flt _ NInf = False"
| "flt PInf _ = False"
| "flt (Fl _) PInf = True"

definition fgt :: "pyfloat \<Rightarrow> pyfloat \<Rightarrow> bool" where
  "fgt a b = flt b a"

text \<open>The sign of a non-NaN value, used by the IEEE rules for products and quotients.\<close>

fun fsign :: "pyfloat \<Rightarrow> int" where
  "fsign (Fl a) = (if a < 0 then -1 else if a = 0 then 0 else 1)"
| "fsign PInf = 1"
| "fsign NInf = -1"
| "fsign NaN = 0"

definition inf_of_sign :: "int \<Rightarrow> pyfloat" where
  "inf_of_sign s = (if s < 0 then NInf else if s = 0 then NaN else PInf)"

text \<open>
  IEEE division as numpy performs it on arrays (\<^verbatim>\<open>QP / Tp\<close>, \<^verbatim>\<open>1.0/p\<close>): dividing by
  zero gives an infinity or NaN and raises nothing.
\<close>

fun np_div :: "pyfloat \<Rightarrow> pyfloat \<Rightarrow> pyfloat" where
  "np_div NaN _ = NaN"
| "np_div _ NaN = NaN"
| "np_div (Fl a) (Fl b) = (if b = 0 then inf_of_sign (fsign (Fl a)) else Fl (a / b))"
| "np_div (Fl a) _ = Fl 0"
| "np_div a (Fl b) = inf_of_sign (fsign a * (if b < 0 then -1 else 1))"
| "np_div _ _ = NaN"

text \<open>
  Division of two Python floats (\<^verbatim>\<open>T1_wall / Tp_wall\<close>): a zero divisor raises
  ZeroDivisionError, everything else follows IEEE.
\<close>

definition py_div :: "pyfloat \<Rightarrow> pyfloat \<Rightarrow> py_error + pyfloat" where
  "py_div a b = (if b = Fl 0 then Inl ZeroDivisionError else Inr (np_div a b))"

text \<open>IEEE addition: NaN propagates, and the sum of opposite infinities is NaN.\<close>

fun fadd :: "pyfloat \<Rightarrow> pyfloat \<Rightarrow> pyfloat" where
  "fadd NaN _ = NaN"
| "fadd _ NaN = NaN"
| "fadd (Fl a) (Fl b) = Fl (a + b)"
| "fadd PInf NInf = NaN"
| "fadd NInf PInf = NaN"
| "fadd PInf _ = PInf"
| "fadd NInf _ = NInf"
| "fadd (Fl _) b = b"

section \<open>bench.py: median of the repeats\<close>

text \<open>
  \<^verbatim>\<open>sorted(data)\<close> on a list of floats, as CPython's list sort computes it for fewer
  than 64 elements. The sort compares with \<^verbatim>\<open><\<close> only, and with NaN in the list, for
  which every comparison is false, its result depends on the steps taken, so these are
  modelled one by one. \<^verbatim>\<open>count_run\<close> finds the run the list starts with: if the second
  element is less than the first, the longest prefix in which every element is less than
  its predecessor, which is then reversed; otherwise the longest prefix in which no
  element is less than its predecessor. \<^verbatim>\<open>binarysort\<close> then inserts the remaining
  elements one at a time into the sorted prefix, at the place a binary search finds:
  \<open>bisect\<close> is that search, between \<open>l\<close> and \<open>r\<close>, going left when the pivot is less
  than the probed element and right otherwise. A list of fewer than two elements is
  returned as it is.

  bench.py sorts the values of the REPEATS = 3 trials of a configuration. A list of 64
  elements or more, which CPython cuts into several runs and merges, is sorted here like
  a short one; the result is the same when the list holds no NaN, since the order of the
  other values is total.
\<close>

fun run_length :: "bool \<Rightarrow> pyfloat \<Rightarrow> pyfloat list \<Rightarrow> nat" where
  "run_length descending prev [] = 0"
| "run_length descending prev (x # xs) =
     (if flt x prev = descending then Suc (run_length descending x xs) else 0)"

definition count_run :: "pyfloat list \<Rightarrow> nat \<times> bool" where
  "count_run a =
     (case a of
        x # y # ys \<Rightarrow> (2 + run_length (flt y x) y ys, flt y x)
      | _ \<Rightarrow> (length a, False))"

function bisect :: "pyfloat list \<Rightarrow> pyfloat \<Rightarrow> nat \<Rightarrow> nat \<Rightarrow> nat" where
  "bisect a pivot l r =
     (if l < r
      then (let p = l + (r - l) div 2 in
            if flt pivot (a ! p) then bisect a pivot l p else bisect a pivot (p + 1) r)
      else l)"
  by pat_completeness auto

termination
  by (relation "measure (\<lambda>(a, pivot, l, r). r - l)") auto

declare bisect.simps [simp del]

definition insert_at :: "nat \<Rightarrow> pyfloat \<Rightarrow> pyfloat list \<Rightarrow> pyfloat list" where
  "insert_at l pivot a = take l a @ pivot # drop l a"

fun binarysort :: "pyfloat list \<Rightarrow> pyfloat list \<Rightarrow> pyfloat list" where
  "binarysort a [] = a"
| "binarysort a (pivot # rest) =
     binarysort (insert_at (bisect a pivot 0 (length a)) pivot a) rest"

definition py_sorted :: "pyfloat list \<Rightarrow> pyfloat list" where
  "py_sorted a =
     (if length a < 2 then a
      else binarysort
             (if snd (count_run a) then rev (take (fst (count_run a)) a)
              else take (fst (count_run a)) a)
             (drop (fst (count_run a)) a))"

text \<open>
  \<^verbatim>\<open>statistics.median\<close>: the middle element of the sorted data, or the mean of the two
  middle elements; StatisticsError on empty data.
\<close>

definition median :: "pyfloat list \<Rightarrow> py_error + pyfloat" where
  "median data_in =
     (let data = py_sorted data_in; n = length data in
      if n = 0 then Inl StatisticsError
      else if n mod 2 = 1 then Inr (data ! (n div 2))
      else (let i = n div 2 in py_div (fadd (data ! (i - 1)) (data ! i)) (Fl 2)))"

text \<open>\<^verbatim>\<open>def med(vals): return stats.median(vals) if vals else float("nan")\<close>\<close>

definition med :: "pyfloat list \<Rightarrow> py_error + pyfloat" where
  "med vals = (if vals \<noteq> [] then median vals else Inr NaN)"

section \<open>bench.py: speedup and efficiency of one configuration\<close>

text \<open>
  \<^verbatim>\<open>Sp = T1_wall / Tp_wall if Tp_wall > 0 else float("nan")\<close>
  \<^verbatim>\<open>Ep = Sp / pthr if pthr > 0 else float("nan")\<close>
  The guards make both divisors non-zero, so neither division can raise.
\<close>

definition speedup :: "pyfloat \<Rightarrow> pyfloat \<Rightarrow> py_error + pyfloat" where
  "speedup T1_wall Tp_wall = (if fgt Tp_wall (Fl 0) then py_div T1_wall Tp_wall else Inr NaN)"

definition efficiency :: "pyfloat \<Rightarrow> int \<Rightarrow> py_error + pyfloat" where
  "efficiency Sp pthr = (if pthr > 0 then py_div Sp (Fl (of_int pthr)) else Inr NaN)"

section \<open>bench.py: samples, rows and the sweep\<close>

text \<open>The dictionary \<^verbatim>\<open>run_one\<close> returns for one trial.\<close>

record sample =
  wall_s :: pyfloat
  app_s :: pyfloat
  maxrss_kb :: pyfloat
  hc :: pyfloat
  hp :: pyfloat
  rc :: int
  out :: string
  err :: string

text \<open>The dictionary \<^verbatim>\<open>main\<close> appends to \<^verbatim>\<open>rows\<close> for one thread count.\<close>

record row =
  threads :: int
  Tp_wall_s :: pyfloat
  Tp_app_s :: pyfloat
  row_speedup :: pyfloat
  row_efficiency :: pyfloat
  row_maxrss_kb :: pyfloat
  hc_med :: pyfloat
  hp_med :: pyfloat

definition THREADS :: "int list" where
  "THREADS = [1, 2, 4, 6, 8]"

definition REPEATS :: nat where
  "REPEATS = 3"

definition ebind :: "py_error + 'a \<Rightarrow> ('a \<Rightarrow> py_error + 'b) \<Rightarrow> py_error + 'b" where
  "ebind m f = (case m of Inl e \<Rightarrow> Inl e | Inr x \<Rightarrow> f x)"

text \<open>
  The body of the loop over \<^verbatim>\<open>THREADS\<close>, for the samples \<^verbatim>\<open>runs\<close> of thread count
  \<^verbatim>\<open>pthr\<close>. Only the peak memory is filtered for NaN before the median is taken.
\<close>

definition mk_row :: "pyfloat \<Rightarrow> int \<Rightarrow> sample list \<Rightarrow> py_error + row" where
  "mk_row T1_wall pthr runs =
     ebind (med (map wall_s runs)) (\<lambda>Tp_wall.
     ebind (med (map app_s runs)) (\<lambda>Tp_app.
     ebind (med (filter (\<lambda>v. \<not> isnan v) (map maxrss_kb runs))) (\<lambda>rss_kb.
     ebind (med (map hc runs)) (\<lambda>hc_m.
     ebind (med (map hp runs)) (\<lambda>hp_m.
     ebind (speedup T1_wall Tp_wall) (\<lambda>Sp.
     ebind (efficiency Sp pthr) (\<lambda>Ep.
     Inr \<lparr>threads = pthr, Tp_wall_s = Tp_wall, Tp_app_s = Tp_app, row_speedup = Sp,
          row_efficiency = Ep, row_maxrss_kb = rss_kb, hc_med = hc_m, hp_med = hp_m\<rparr>)))))))"

text \<open>The serial baseline: medians over the serial runs, none of them filtered.\<close>

record baseline =
  T1_wall_s :: pyfloat
  T1_app_s :: pyfloat
  hc1 :: pyfloat
  hp1 :: pyfloat

definition mk_baseline :: "sample list \<Rightarrow> py_error + baseline" where
  "mk_baseline serial_runs =
     ebind (med (map wall_s serial_runs)) (\<lambda>w.
     ebind (med (map app_s serial_runs)) (\<lambda>a.
     ebind (med (map hc serial_runs)) (\<lambda>c.
     ebind (med (map hp serial_runs)) (\<lambda>h.
     Inr \<lparr>T1_wall_s = w, T1_app_s = a, hc1 = c, hp1 = h\<rparr>))))"

text \<open>
  The loop \<^verbatim>\<open>for pthr in THREADS\<close>; \<^verbatim>\<open>par_runs pthr\<close> is the list of samples the trials
  at thread count \<^verbatim>\<open>pthr\<close> returned.
\<close>

fun mk_rows :: "pyfloat \<Rightarrow> (int \<Rightarrow> sample list) \<Rightarrow> int list \<Rightarrow> py_error + row list" where
  "mk_rows T1_wall par_runs [] = Inr []"
| "mk_rows T1_wall par_runs (pthr # ps) =
     ebind (mk_row T1_wall pthr (par_runs pthr)) (\<lambda>r.
     ebind (mk_rows T1_wall par_runs ps) (\<lambda>rs. Inr (r # rs)))"

text \<open>A trial of which only the wall time was measured, for concrete data sets.\<close>

definition wall_only :: "pyfloat \<Rightarrow> sample" where
  "wall_only w = \<lparr>wall_s = w, app_s = NaN, maxrss_kb = NaN, hc = NaN, hp = NaN, rc = 0,
     out = [], err = []\<rparr>"

section \<open>Text: numbers in and out of strings\<close>

text \<open>
  Strings are lists of 8-bit characters; the captured output and the table cells are taken
  to be ASCII. \<^verbatim>\<open>\s\<close> of a \<^verbatim>\<open>str\<close> pattern and \<^verbatim>\<open>str.strip\<close> treat the following
  ASCII characters as whitespace.
\<close>

definition is_space :: "char \<Rightarrow> bool" where
  "is_space c = (c \<in> set [CHR 0x09, CHR 0x0A, CHR 0x0B, CHR 0x0C, CHR 0x0D,
                            CHR 0x1C, CHR 0x1D, CHR 0x1E, CHR 0x1F, CHR 0x20])"

definition is_digit :: "char \<Rightarrow> bool" where
  "is_digit c = (c \<in> set ''0123456789'')"

definition digit_val :: "char \<Rightarrow> nat" where
  "digit_val c = of_char c - 48"

definition digits_val :: "string \<Rightarrow> nat" where
  "digits_val ds = foldl (\<lambda>a c. 10 * a + digit_val c) 0 ds"

definition strip :: "string \<Rightarrow> string" where
  "strip s = rev (dropWhile is_space (rev (dropWhile is_space s)))"

fun split_sign :: "string \<Rightarrow> bool \<times> string" where
  "split_sign [] = (False, [])"
| "split_sign (c # cs) =
     (if c = CHR ''-'' then (True, cs) else if c = CHR ''+'' then (False, cs)
      else (False, c # cs))"

definition lower :: "char \<Rightarrow> char" where
  "lower c = (if (65::nat) \<le> of_char c \<and> of_char c \<le> (90::nat)
              then char_of (of_char c + (32::nat)) else c)"

text \<open>A decimal literal: digits, optionally a point and more digits, at least one digit.\<close>

definition parse_decimal :: "string \<Rightarrow> real option" where
  "parse_decimal s =
     (let ip = takeWhile is_digit s in
      case dropWhile is_digit s of
        [] \<Rightarrow> if ip = [] then None else Some (real (digits_val ip))
      | c # fs \<Rightarrow>
          if c = CHR ''.'' \<and> list_all is_digit fs \<and> (ip \<noteq> [] \<or> fs \<noteq> [])
          then Some (real (digits_val ip) + real (digits_val fs) / 10 ^ length fs)
          else None)"

definition parse_exponent :: "string \<Rightarrow> int option" where
  "parse_exponent s =
     (case split_sign s of (neg, ds) \<Rightarrow>
        if ds \<noteq> [] \<and> list_all is_digit ds
        then Some (if neg then - int (digits_val ds) else int (digits_val ds))
        else None)"

definition scale10 :: "real \<Rightarrow> int \<Rightarrow> real" where
  "scale10 v k = (if 0 \<le> k then v * 10 ^ nat k else v / 10 ^ nat (- k))"

definition is_e :: "char \<Rightarrow> bool" where
  "is_e c = (c = CHR ''e'' \<or> c = CHR ''E'')"

definition parse_number :: "string \<Rightarrow> real option" where
  "parse_number s =
     (case dropWhile (\<lambda>c. \<not> is_e c) s of
        [] \<Rightarrow> parse_decimal s
      | _ # ex \<Rightarrow>
          (case (parse_decimal (takeWhile (\<lambda>c. \<not> is_e c) s), parse_exponent ex) of
             (Some v, Some k) \<Rightarrow> Some (scale10 v k)
           | _ \<Rightarrow> None))"

text \<open>
  \<^verbatim>\<open>float(s)\<close> for a string: surrounding whitespace is dropped, then an optional sign and
  \<^verbatim>\<open>nan\<close>, \<^verbatim>\<open>inf\<close>, \<^verbatim>\<open>infinity\<close> (in any case) or a decimal number with an optional
  exponent; anything else raises ValueError. Underscores between digits, which Python
  also accepts, are not modelled. The value is the exact decimal, not its nearest double.
\<close>

definition py_float :: "string \<Rightarrow> py_error + pyfloat" where
  "py_float s =
     (case split_sign (strip s) of (neg, body) \<Rightarrow>
        if map lower body = ''nan'' then Inr NaN
        else if map lower body = ''inf'' \<or> map lower body = ''infinity''
        then Inr (if neg then NInf else PInf)
        else (case parse_number body of
                Some v \<Rightarrow> Inr (Fl (if neg then - v else v))
              | None \<Rightarrow> Inl ValueError))"

text \<open>
  \<^verbatim>\<open>int(s)\<close> for a string: surrounding whitespace is dropped, then an optional sign and
  decimal digits; anything else raises ValueError. Underscores are not modelled.
\<close>

definition py_int :: "string \<Rightarrow> py_error + int" where
  "py_int s =
     (case split_sign (strip s) of (neg, ds) \<Rightarrow>
        if ds \<noteq> [] \<and> list_all is_digit ds
        then Inr (if neg then - int (digits_val ds) else int (digits_val ds))
        else Inl ValueError)"

text \<open>\<^verbatim>\<open>str(n)\<close> for an integer: its decimal digits, with a minus sign when negative.\<close>

fun nat_digits :: "nat \<Rightarrow> string" where
  "nat_digits n =
     (if n < 10 then [char_of (48 + n)]
      else nat_digits (n div 10) @ [char_of (48 + n mod 10)])"

declare nat_digits.simps [simp del]

definition str_int :: "int \<Rightarrow> string" where
  "str_int i = (if i < 0 then CHR ''-'' # nat_digits (nat (- i)) else nat_digits (nat i))"

section \<open>bench.py: extracting the markers from the captured output\<close>

text \<open>
  \<^verbatim>\<open>HC_RE = re.compile(r"hc:\s*([0-9.]+)")\<close> and \<^verbatim>\<open>HP_RE\<close>, the same with \<^verbatim>\<open>hp:\<close>.
  A match at a position is the marker, any whitespace, and a non-empty run of digits and
  points, which is the group. Whitespace and the group's characters are disjoint, so the
  greedy match is the only one at a position. \<^verbatim>\<open>search\<close> returns the leftmost match.
\<close>

definition is_numchar :: "char \<Rightarrow> bool" where
  "is_numchar c = (is_digit c \<or> c = CHR ''.'')"

definition is_prefix :: "string \<Rightarrow> string \<Rightarrow> bool" where
  "is_prefix m s = (take (length m) s = m)"

definition scalar_match_here :: "string \<Rightarrow> string \<Rightarrow> string option" where
  "scalar_match_here marker s =
     (if is_prefix marker s
      then (let g = takeWhile is_numchar (dropWhile is_space (drop (length marker) s))
            in if g = [] then None else Some g)
      else None)"

fun scalar_search :: "string \<Rightarrow> string \<Rightarrow> string option" where
  "scalar_search marker [] = scalar_match_here marker []"
| "scalar_search marker (c # cs) =
     (case scalar_match_here marker (c # cs) of
        Some g \<Rightarrow> Some g
      | None \<Rightarrow> scalar_search marker cs)"

text \<open>
  \<^verbatim>\<open>APP_TIME_RE = re.compile(r"\[bandwidth_grid_total\]\s+([\d\.]+)\s*s")\<close>: the marker,
  at least one whitespace character, the group, any whitespace, and the letter s.
\<close>

definition app_time_match_here :: "string \<Rightarrow> string option" where
  "app_time_match_here s =
     (if is_prefix ''[bandwidth_grid_total]'' s
      then (let r1 = drop (length ''[bandwidth_grid_total]'') s;
                r2 = dropWhile is_space r1;
                g = takeWhile is_numchar r2
            in if takeWhile is_space r1 = [] \<or> g = [] then None
               else (case dropWhile is_space (dropWhile is_numchar r2) of
                       [] \<Rightarrow> None
                     | c # _ \<Rightarrow> if c = CHR ''s'' then Some g else None))
      else None)"

fun app_time_search :: "string \<Rightarrow> string option" where
  "app_time_search [] = None"
| "app_time_search (c # cs) =
     (case app_time_match_here (c # cs) of
        Some g \<Rightarrow> Some g
      | None \<Rightarrow> app_time_search cs)"

text \<open>
  The three values \<^verbatim>\<open>run_one\<close> parses from the two streams. The internal timer is looked
  for in stdout and then in stderr; the two correctness scalars in stdout only.
  \<^verbatim>\<open>float\<close> raises ValueError on a group such as \<^verbatim>\<open>1.2.3\<close>.
\<close>

definition parse_app_time :: "string \<Rightarrow> string \<Rightarrow> py_error + pyfloat" where
  "parse_app_time out_s err_s =
     (case (case app_time_search out_s of Some g \<Rightarrow> Some g | None \<Rightarrow> app_time_search err_s) of
        Some g \<Rightarrow> py_float g
      | None \<Rightarrow> Inr NaN)"

definition parse_hc :: "string \<Rightarrow> string \<Rightarrow> py_error + pyfloat" where
  "parse_hc out_s err_s =
     (case scalar_search ''hc:'' out_s of Some g \<Rightarrow> py_float g | None \<Rightarrow> Inr NaN)"

definition parse_hp :: "string \<Rightarrow> string \<Rightarrow> py_error + pyfloat" where
  "parse_hp out_s err_s =
     (case scalar_search ''hp:'' out_s of Some g \<Rightarrow> py_float g | None \<Rightarrow> Inr NaN)"

section \<open>The persisted table\<close>

text \<open>
  A CSV file is modelled as the grid of cells the \<^verbatim>\<open>csv\<close> module writes and reads back:
  a list of rows, each a list of strings, the first row being the header. The comma and
  quote layer of the file format is not modelled.
\<close>

type_synonym csv_grid = "string list list"

definition fieldnames :: "string list" where
  "fieldnames = [''NGRID'', ''T1_wall_s'', ''T1_app_s'', ''hc1'', ''hp1'', ''threads'',
     ''Tp_wall_s'', ''Tp_app_s'', ''speedup'', ''efficiency'', ''maxrss_kb'', ''hc_med'',
     ''hp_med'']"

text \<open>
  The writer turns a float into text with \<^verbatim>\<open>str\<close>, which for a Python float is its
  shortest round-tripping decimal. The text of a finite value is a parameter \<open>fin\<close> of the
  model; the non-finite values print as below.
\<close>

definition py_repr :: "(real \<Rightarrow> string) \<Rightarrow> pyfloat \<Rightarrow> string" where
  "py_repr fin x = (case x of Fl r \<Rightarrow> fin r | PInf \<Rightarrow> ''inf'' | NInf \<Rightarrow> ''-inf'' | NaN \<Rightarrow> ''nan'')"

text \<open>The dictionary \<^verbatim>\<open>r2\<close> of one row, as key and printed value: the baseline, then the row.\<close>

definition row_dict :: "(real \<Rightarrow> string) \<Rightarrow> int \<Rightarrow> baseline \<Rightarrow> row \<Rightarrow> (string \<times> string) list" where
  "row_dict fin NGRID b r =
     [(''NGRID'', str_int NGRID), (''T1_wall_s'', py_repr fin (T1_wall_s b)),
      (''T1_app_s'', py_repr fin (T1_app_s b)), (''hc1'', py_repr fin (hc1 b)),
      (''hp1'', py_repr fin (hp1 b)),
      (''threads'', str_int (threads r)), (''Tp_wall_s'', py_repr fin (Tp_wall_s r)),
      (''Tp_app_s'', py_repr fin (Tp_app_s r)), (''speedup'', py_repr fin (row_speedup r)),
      (''efficiency'', py_repr fin (row_efficiency r)),
      (''maxrss_kb'', py_repr fin (row_maxrss_kb r)), (''hc_med'', py_repr fin (hc_med r)),
      (''hp_med'', py_repr fin (hp_med r))]"

text \<open>
  \<^verbatim>\<open>DictWriter.writerow\<close>: a key outside the field names raises ValueError; the cells are
  the values in field-name order, the empty string for a missing key.
\<close>

definition dictwriter_row :: "string list \<Rightarrow> (string \<times> string) list \<Rightarrow> py_error + string list" where
  "dictwriter_row fnames d =
     (if \<exists>k \<in> set (map fst d). k \<notin> set fnames then Inl ValueError
      else Inr (map (\<lambda>k. case map_of d k of Some v \<Rightarrow> v | None \<Rightarrow> []) fnames))"

fun dictwriter_rows :: "string list \<Rightarrow> (string \<times> string) list list \<Rightarrow> py_error + csv_grid" where
  "dictwriter_rows fnames [] = Inr []"
| "dictwriter_rows fnames (d # ds) =
     ebind (dictwriter_row fnames d) (\<lambda>cells.
     ebind (dictwriter_rows fnames ds) (\<lambda>rest. Inr (cells # rest)))"

definition write_csv :: "(real \<Rightarrow> string) \<Rightarrow> int \<Rightarrow> baseline \<Rightarrow> row list \<Rightarrow> py_error + csv_grid" where
  "write_csv fin NGRID b rows =
     ebind (dictwriter_rows fieldnames (map (row_dict fin NGRID b) rows)) (\<lambda>body.
     Inr (fieldnames # body))"

text \<open>
  \<^verbatim>\<open>DictReader\<close>: the first row gives the keys; an empty row is skipped; a short row has
  \<^verbatim>\<open>None\<close> for the keys it does not reach; a later duplicate of a key wins.
\<close>

definition dict_of_row :: "string list \<Rightarrow> string list \<Rightarrow> (string \<rightharpoonup> string option)" where
  "dict_of_row header cells =
     map_of (rev (zip header (map Some cells @ replicate (length header - length cells) None)))"

definition dictreader :: "csv_grid \<Rightarrow> (string \<rightharpoonup> string option) list" where
  "dictreader g =
     (case g of [] \<Rightarrow> [] | header # body \<Rightarrow> map (dict_of_row header) (filter (\<lambda>r. r \<noteq> []) body))"

section \<open>postprocess.py: load\<close>

definition cell :: "(string \<rightharpoonup> string option) \<Rightarrow> string \<Rightarrow> py_error + string option" where
  "cell d k = (case d k of None \<Rightarrow> Inl KeyError | Some v \<Rightarrow> Inr v)"

text \<open>\<^verbatim>\<open>int(row[k])\<close> and \<^verbatim>\<open>float(row[k])\<close>.\<close>

definition req_int :: "(string \<rightharpoonup> string option) \<Rightarrow> string \<Rightarrow> py_error + int" where
  "req_int d k = ebind (cell d k) (\<lambda>v. case v of None \<Rightarrow> Inl TypeError | Some s \<Rightarrow> py_int s)"

definition req_float :: "(string \<rightharpoonup> string option) \<Rightarrow> string \<Rightarrow> py_error + pyfloat" where
  "req_float d k = ebind (cell d k) (\<lambda>v. case v of None \<Rightarrow> Inl TypeError | Some s \<Rightarrow> py_float s)"

text \<open>\<^verbatim>\<open>float(row[k]) if row[k] else float("nan")\<close>\<close>

definition opt_float :: "(string \<rightharpoonup> string option) \<Rightarrow> string \<Rightarrow> py_error + pyfloat" where
  "opt_float d k =
     ebind (cell d k) (\<lambda>v. case v of None \<Rightarrow> Inr NaN
                            | Some s \<Rightarrow> if s = [] then Inr NaN else py_float s)"

text \<open>What the loop over the rows appends for one row, in the order it does.\<close>

record cfg =
  c_P :: int
  c_Tp :: pyfloat
  c_Sp :: pyfloat
  c_Ep :: pyfloat
  c_Hc :: pyfloat
  c_Hp :: pyfloat
  c_Rss :: pyfloat

definition load_row :: "(string \<rightharpoonup> string option) \<Rightarrow> py_error + cfg" where
  "load_row r =
     ebind (req_int r ''threads'') (\<lambda>p.
     ebind (req_float r ''Tp_wall_s'') (\<lambda>tp.
     ebind (opt_float r ''speedup'') (\<lambda>sp.
     ebind (opt_float r ''efficiency'') (\<lambda>ep.
     ebind (opt_float r ''hc_med'') (\<lambda>c.
     ebind (opt_float r ''hp_med'') (\<lambda>h.
     ebind (opt_float r ''maxrss_kb'') (\<lambda>m.
     Inr \<lparr>c_P = p, c_Tp = tp, c_Sp = sp, c_Ep = ep, c_Hc = c, c_Hp = h, c_Rss = m\<rparr>)))))))"

fun load_rows :: "(string \<rightharpoonup> string option) list \<Rightarrow> py_error + cfg list" where
  "load_rows [] = Inr []"
| "load_rows (r # rs) =
     ebind (load_row r) (\<lambda>c. ebind (load_rows rs) (\<lambda>cs. Inr (c # cs)))"

text \<open>The tuple \<^verbatim>\<open>load\<close> returns.\<close>

record loaded =
  ngrid :: int
  T1_wall :: pyfloat
  T1_app :: pyfloat
  l_hc1 :: pyfloat
  l_hp1 :: pyfloat
  P :: "int list"
  Tp :: "pyfloat list"
  Sp :: "pyfloat list"
  Ep :: "pyfloat list"
  Hc :: "pyfloat list"
  Hp :: "pyfloat list"
  Rss :: "pyfloat list"

definition load :: "csv_grid \<Rightarrow> py_error + loaded" where
  "load g =
     (case dictreader g of
        [] \<Rightarrow> Inl SystemExit
      | r0 # rest \<Rightarrow>
          ebind (req_int r0 ''NGRID'') (\<lambda>n.
          ebind (req_float r0 ''T1_wall_s'') (\<lambda>w.
          ebind (req_float r0 ''T1_app_s'') (\<lambda>a.
          ebind (opt_float r0 ''hc1'') (\<lambda>c.
          ebind (opt_float r0 ''hp1'') (\<lambda>h.
          ebind (load_rows (r0 # rest)) (\<lambda>cs.
          Inr \<lparr>ngrid = n, T1_wall = w, T1_app = a, l_hc1 = c, l_hp1 = h,
               P = map c_P cs, Tp = map c_Tp cs, Sp = map c_Sp cs, Ep = map c_Ep cs,
               Hc = map c_Hc cs, Hp = map c_Hp cs, Rss = map c_Rss cs\<rparr>)))))))"

section \<open>The least-squares fit\<close>

text \<open>
  \<^verbatim>\<open>np.linalg.lstsq(X, y, rcond=None)\<close> for a matrix \<open>X\<close> of two columns, given as its
  list of rows. By numpy's contract it returns, on finite data, the least-squares solution
  of minimum norm, also for a rank-deficient or under-determined system, and raises only
  when the computation does not converge. That solution is the solution of the normal
  equations when \<open>X\<close> has rank 2, the vector \<open>X\<^sup>T y / (\<Sum> a\<^sup>2 + \<Sum> b\<^sup>2)\<close> when it has
  rank 1, and zero when \<open>X\<close> is zero; that \<open>lstsq2\<close> is this solution is proved below
  (\<open>lstsq2_minimises\<close>, \<open>lstsq2_minimum_norm\<close>). The exact solution stands for the
  double-precision one: rounding, and the cut-off of singular values at machine precision,
  are not modelled.
\<close>

definition dot :: "real list \<Rightarrow> real list \<Rightarrow> real" where
  "dot u v = sum_list (map (\<lambda>(a, b). a * b) (zip u v))"

definition lstsq2 :: "(real \<times> real) list \<Rightarrow> real list \<Rightarrow> real \<times> real" where
  "lstsq2 X y =
     (let a = map fst X; b = map snd X;
          Saa = dot a a; Sab = dot a b; Sbb = dot b b; Say = dot a y; Sby = dot b y;
          d = Saa * Sbb - Sab * Sab
      in if d \<noteq> 0 then ((Sbb * Say - Sab * Sby) / d, (Saa * Sby - Sab * Say) / d)
         else if Saa + Sbb = 0 then (0, 0)
         else (Say / (Saa + Sbb), Sby / (Saa + Sbb)))"

text \<open>
  The residual sum of squares of coefficients \<open>c\<close> for the rows \<open>X\<close> and the response \<open>y\<close>,
  which a least-squares solution minimises.
\<close>

definition rss :: "(real \<times> real) list \<Rightarrow> real list \<Rightarrow> real \<times> real \<Rightarrow> real" where
  "rss X y c = sum_list (map (\<lambda>((a, b), v). (v - (fst c * a + snd c * b))\<^sup>2) (zip X y))"

fun the_real :: "pyfloat \<Rightarrow> real" where
  "the_real (Fl r) = r"
| "the_real _ = 0"

text \<open>
  What the LAPACK driver does with data that contain an infinity or NaN is not
  determined by the scripts: it returns coefficients (\<open>Some\<close>), or does not converge, and
  numpy raises LinAlgError (\<open>None\<close>). It is the parameter \<open>nf\<close> of the model.
\<close>

type_synonym nonfinite_fit =
  "(pyfloat \<times> pyfloat) list \<Rightarrow> pyfloat list \<Rightarrow> (pyfloat \<times> pyfloat) option"

definition lstsq :: "nonfinite_fit \<Rightarrow> (pyfloat \<times> pyfloat) list \<Rightarrow> pyfloat list
    \<Rightarrow> py_error + pyfloat \<times> pyfloat" where
  "lstsq nf X y =
     (if length X \<noteq> length y then Inl LinAlgError
      else if list_all (\<lambda>(a, b). isfinite a \<and> isfinite b) X \<and> list_all isfinite y
      then (case lstsq2 (map (\<lambda>(a, b). (the_real a, the_real b)) X) (map the_real y) of
              (b0, b1) \<Rightarrow> Inr (Fl b0, Fl b1))
      else (case nf X y of None \<Rightarrow> Inl LinAlgError | Some beta \<Rightarrow> Inr beta))"

text \<open>
  \<^verbatim>\<open>amdahl_serial_fraction(P, Tp, T1)\<close>, the same in both scripts: the response is
  \<^verbatim>\<open>Tp/T1\<close>, the design matrix has the columns 1 and \<^verbatim>\<open>1/p\<close>, and the result is the first
  coefficient. Both divisions are numpy's.
\<close>

definition amdahl_serial_fraction :: "nonfinite_fit \<Rightarrow> pyfloat list \<Rightarrow> pyfloat list \<Rightarrow> pyfloat
    \<Rightarrow> py_error + pyfloat" where
  "amdahl_serial_fraction nf p Tp_list T1 =
     (let y = map (\<lambda>t. np_div t T1) Tp_list;
          X = map (\<lambda>q. (Fl 1, np_div (Fl 1) q)) p
      in ebind (lstsq nf X y) (\<lambda>beta. Inr (fst beta)))"

section \<open>Report artifacts\<close>

text \<open>
  A written file is recorded with the numbers that go into it: a figure with the series
  of each \<^verbatim>\<open>plt.plot(x, y)\<close> call, a text file with the values it formats. Titles, labels
  and the rounding of the formatted numbers are not modelled.
\<close>

datatype artifact =
    Figure "(pyfloat list \<times> pyfloat list) list"
  | CsvFile csv_grid
  | AmdahlTxt pyfloat
  | CorrectnessMd pyfloat pyfloat "(int \<times> pyfloat \<times> pyfloat \<times> pyfloat \<times> pyfloat) list"
  | SummaryTxt pyfloat int pyfloat pyfloat pyfloat

type_synonym fs = "string \<rightharpoonup> artifact"

text \<open>
  The files after a step, and the exception that ended it, if any. A sequence of steps
  stops at the first exception and keeps the files written so far.
\<close>

type_synonym outcome = "fs \<times> py_error option"

fun run_steps :: "(fs \<Rightarrow> outcome) list \<Rightarrow> fs \<Rightarrow> outcome" where
  "run_steps [] files = (files, None)"
| "run_steps (step # steps) files =
     (case step files of
        (files', None) \<Rightarrow> run_steps steps files'
      | (files', Some e) \<Rightarrow> (files', Some e))"

text \<open>\<^verbatim>\<open>P/P[0]\<close>, the ideal line; indexing an empty array raises IndexError.\<close>

definition ideal_line :: "pyfloat list \<Rightarrow> py_error + pyfloat list" where
  "ideal_line p = (case p of [] \<Rightarrow> Inl IndexError | p0 # _ \<Rightarrow> Inr (map (\<lambda>q. np_div q p0) p))"

definition as_float :: "int list \<Rightarrow> pyfloat list" where
  "as_float ps = map (\<lambda>q. Fl (of_int q)) ps"

text \<open>
  The estimate step of both \<^verbatim>\<open>main\<close> functions: \<^verbatim>\<open>try\<close> the fit and write
  \<^verbatim>\<open>amdahl.txt\<close>; \<^verbatim>\<open>except Exception: pass\<close>. SystemExit is not an \<^verbatim>\<open>Exception\<close>.
\<close>

definition amdahl_step :: "nonfinite_fit \<Rightarrow> pyfloat list \<Rightarrow> pyfloat list \<Rightarrow> pyfloat \<Rightarrow> fs \<Rightarrow> outcome" where
  "amdahl_step nf p Tp_list T1 files =
     (case amdahl_serial_fraction nf p Tp_list T1 of
        Inr s \<Rightarrow> (files(''amdahl.txt'' \<mapsto> AmdahlTxt s), None)
      | Inl e \<Rightarrow> (files, if e = SystemExit then Some e else None))"

section \<open>postprocess.py: the artifacts\<close>

definition save_speedup_serial :: "int list \<Rightarrow> pyfloat list \<Rightarrow> fs \<Rightarrow> outcome" where
  "save_speedup_serial Ps Sps files =
     (case ideal_line (as_float Ps) of
        Inl e \<Rightarrow> (files, Some e)
      | Inr ideal \<Rightarrow>
          (files(''speedup_vs_serial.png'' \<mapsto>
             Figure [(as_float Ps, Sps), (as_float Ps, ideal)]), None))"

text \<open>\<^verbatim>\<open>P.tolist().index(1)\<close>, for a list that contains 1.\<close>

fun index_of :: "int \<Rightarrow> int list \<Rightarrow> nat" where
  "index_of v [] = 0"
| "index_of v (x # xs) = (if x = v then 0 else Suc (index_of v xs))"

definition save_speedup_parallel :: "int list \<Rightarrow> pyfloat list \<Rightarrow> fs \<Rightarrow> outcome" where
  "save_speedup_parallel Ps Tps files =
     (if 1 \<notin> set Ps then (files, None)
      else if index_of 1 Ps \<ge> length Tps then (files, Some IndexError)
      else (let T1p = Tps ! index_of 1 Ps;
                Sp_par = map (\<lambda>t. np_div T1p t) Tps
            in case ideal_line (as_float Ps) of
                 Inl e \<Rightarrow> (files, Some e)
               | Inr ideal \<Rightarrow>
                   (files(''speedup_parallel_baseline.png'' \<mapsto>
                      Figure [(as_float Ps, Sp_par), (as_float Ps, ideal)]), None)))"

text \<open>IEEE subtraction, for the deltas of the correctness table.\<close>

fun fneg :: "pyfloat \<Rightarrow> pyfloat" where
  "fneg (Fl a) = Fl (- a)"
| "fneg PInf = NInf"
| "fneg NInf = PInf"
| "fneg NaN = NaN"

definition fsub :: "pyfloat \<Rightarrow> pyfloat \<Rightarrow> pyfloat" where
  "fsub a b = fadd a (fneg b)"

definition delta :: "pyfloat \<Rightarrow> pyfloat \<Rightarrow> pyfloat" where
  "delta v base = (if \<not> (isnan v \<or> isnan base) then fsub v base else NaN)"

definition save_correctness_table :: "int list \<Rightarrow> pyfloat list \<Rightarrow> pyfloat list \<Rightarrow> pyfloat \<Rightarrow> pyfloat
    \<Rightarrow> fs \<Rightarrow> outcome" where
  "save_correctness_table Ps Hcs Hps hc_base hp_base files =
     (files(''correctness_table.md'' \<mapsto>
        CorrectnessMd hc_base hp_base
          (map (\<lambda>(q, c, h). (q, c, delta c hc_base, h, delta h hp_base)) (zip Ps (zip Hcs Hps)))),
      None)"

text \<open>
  \<^verbatim>\<open>np.argmin\<close> of a float array: the scan replaces the current minimum by an element
  that is not greater than or equal to it, and stops at the first NaN. The argument pair
  is the index and value of the current minimum, \<open>i\<close> the index of the next element.
\<close>

definition fge :: "pyfloat \<Rightarrow> pyfloat \<Rightarrow> bool" where
  "fge a b = (\<not> isnan a \<and> \<not> isnan b \<and> \<not> flt a b)"

fun argmin_scan :: "nat \<times> pyfloat \<Rightarrow> nat \<Rightarrow> pyfloat list \<Rightarrow> nat" where
  "argmin_scan (mi, mp) i [] = mi"
| "argmin_scan (mi, mp) i (x # xs) =
     (if \<not> fge x mp then (if isnan x then i else argmin_scan (i, x) (Suc i) xs)
      else argmin_scan (mi, mp) (Suc i) xs)"

definition argmin :: "pyfloat list \<Rightarrow> py_error + nat" where
  "argmin xs =
     (case xs of [] \<Rightarrow> Inl ValueError
      | x # rest \<Rightarrow> Inr (if isnan x then 0 else argmin_scan (0, x) 1 rest))"

definition save_summary :: "int list \<Rightarrow> pyfloat list \<Rightarrow> pyfloat \<Rightarrow> pyfloat list \<Rightarrow> fs \<Rightarrow> outcome" where
  "save_summary Ps Tps T1w Effs files =
     (case argmin Tps of
        Inl e \<Rightarrow> (files, Some e)
      | Inr best_i \<Rightarrow>
          if best_i \<ge> length Ps then (files, Some IndexError)
          else (let best_p = Ps ! best_i; best_Tp = Tps ! best_i in
                case py_div T1w best_Tp of
                  Inl e \<Rightarrow> (files, Some e)
                | Inr S \<Rightarrow>
                    (case (if best_i < length Effs then Inr (Effs ! best_i)
                           else py_div S (Fl (of_int best_p))) of
                       Inl e \<Rightarrow> (files, Some e)
                     | Inr Eff \<Rightarrow>
                         (files(''summary.txt'' \<mapsto> SummaryTxt T1w best_p best_Tp S Eff),
                          None))))"

text \<open>
  \<^verbatim>\<open>QP = nstrike * (ngrid**2) * (mrange + 1)\<close>, \<^verbatim>\<open>thr = QP / Tp\<close>, and the plotted
  series \<^verbatim>\<open>thr/1e6\<close>.
\<close>

definition QP :: "int \<Rightarrow> int \<Rightarrow> int \<Rightarrow> int" where
  "QP nstrike n mrange = nstrike * (n ^ 2) * (mrange + 1)"

definition throughput :: "pyfloat list \<Rightarrow> int \<Rightarrow> int \<Rightarrow> int \<Rightarrow> pyfloat list" where
  "throughput Tps n nstrike mrange = map (\<lambda>t. np_div (Fl (of_int (QP nstrike n mrange))) t) Tps"

definition save_throughput :: "int list \<Rightarrow> pyfloat list \<Rightarrow> int \<Rightarrow> int \<Rightarrow> int \<Rightarrow> fs \<Rightarrow> outcome" where
  "save_throughput Ps Tps n nstrike mrange files =
     (files(''throughput.png'' \<mapsto>
        Figure [(as_float Ps,
                 map (\<lambda>t. np_div t (Fl 1000000)) (throughput Tps n nstrike mrange))]),
      None)"

text \<open>\<^verbatim>\<open>if args.mrange is not None and args.nstrike is not None: save_throughput(...)\<close>\<close>

definition throughput_step :: "int option \<Rightarrow> int option \<Rightarrow> int list \<Rightarrow> pyfloat list \<Rightarrow> int
    \<Rightarrow> fs \<Rightarrow> outcome" where
  "throughput_step mrange nstrike Ps Tps n files =
     (case (mrange, nstrike) of
        (Some m, Some k) \<Rightarrow> save_throughput Ps Tps n k m files
      | _ \<Rightarrow> (files, None))"

text \<open>
  \<^verbatim>\<open>main\<close> of postprocess.py, for the parsed options \<^verbatim>\<open>--mrange\<close> and \<^verbatim>\<open>--nstrike\<close> and
  the table at \<^verbatim>\<open>--csv\<close>.
\<close>

definition postprocess_steps :: "nonfinite_fit \<Rightarrow> int option \<Rightarrow> int option \<Rightarrow> loaded
    \<Rightarrow> (fs \<Rightarrow> outcome) list" where
  "postprocess_steps nf mrange nstrike L =
     [save_speedup_serial (P L) (Sp L),
      save_speedup_parallel (P L) (Tp L),
      save_correctness_table (P L) (Hc L) (Hp L) (l_hc1 L) (l_hp1 L),
      save_summary (P L) (Tp L) (T1_wall L) (Ep L),
      amdahl_step nf (as_float (P L)) (Tp L) (T1_wall L),
      throughput_step mrange nstrike (P L) (Tp L) (ngrid L)]"

definition postprocess_main :: "nonfinite_fit \<Rightarrow> int option \<Rightarrow> int option \<Rightarrow> csv_grid \<Rightarrow> fs \<Rightarrow> outcome" where
  "postprocess_main nf mrange nstrike g files =
     (case load g of
        Inl e \<Rightarrow> (files, Some e)
      | Inr L \<Rightarrow> run_steps (postprocess_steps nf mrange nstrike L) files)"

section \<open>bench.py: main\<close>

text \<open>
  \<^verbatim>\<open>main\<close> of bench.py after \<^verbatim>\<open>ensure_paths\<close>, for the samples the trials returned:
  the table, the three curves, the memory curve when some row has a peak memory, and the
  estimate.
\<close>

definition memory_step :: "pyfloat list \<Rightarrow> pyfloat list \<Rightarrow> fs \<Rightarrow> outcome" where
  "memory_step p R files =
     (if \<not> list_all isnan R
      then (files(''memory_vs_threads.png'' \<mapsto> Figure [(p, map (\<lambda>v. np_div v (Fl 1024)) R)]), None)
      else (files, None))"

definition speedup_step :: "pyfloat list \<Rightarrow> pyfloat list \<Rightarrow> fs \<Rightarrow> outcome" where
  "speedup_step p S files =
     (case ideal_line p of
        Inl e \<Rightarrow> (files, Some e)
      | Inr ideal \<Rightarrow> (files(''speedup.png'' \<mapsto> Figure [(p, S), (p, ideal)]), None))"

definition time_step :: "pyfloat list \<Rightarrow> pyfloat list \<Rightarrow> fs \<Rightarrow> outcome" where
  "time_step p Tpw files = (files(''time_vs_threads.png'' \<mapsto> Figure [(p, Tpw)]), None)"

definition efficiency_step :: "pyfloat list \<Rightarrow> pyfloat list \<Rightarrow> fs \<Rightarrow> outcome" where
  "efficiency_step p E files = (files(''efficiency.png'' \<mapsto> Figure [(p, E)]), None)"

definition bench_steps :: "nonfinite_fit \<Rightarrow> pyfloat \<Rightarrow> row list \<Rightarrow> (fs \<Rightarrow> outcome) list" where
  "bench_steps nf T1w rows =
     (let p = as_float (map threads rows);
          Tpw = map Tp_wall_s rows;
          R = map row_maxrss_kb rows
      in [time_step p Tpw,
          speedup_step p (map row_speedup rows),
          efficiency_step p (map row_efficiency rows),
          memory_step p R,
          amdahl_step nf p Tpw T1w])"

definition bench_main :: "(real \<Rightarrow> string) \<Rightarrow> nonfinite_fit \<Rightarrow> int \<Rightarrow> sample list
    \<Rightarrow> (int \<Rightarrow> sample list) \<Rightarrow> fs \<Rightarrow> outcome" where
  "bench_main fin nf NGRID serial_runs par_runs files =
     (case mk_baseline serial_runs of
        Inl e \<Rightarrow> (files, Some e)
      | Inr b \<Rightarrow>
     (case mk_rows (T1_wall_s b) par_runs THREADS of
        Inl e \<Rightarrow> (files, Some e)
      | Inr rows \<Rightarrow>
     (case write_csv fin NGRID b rows of
        Inl e \<Rightarrow> (files, Some e)
      | Inr g \<Rightarrow>
          run_steps (bench_steps nf (T1_wall_s b) rows)
            (files(''bench_results.csv'' \<mapsto> CsvFile g)))))"

text \<open>A trial that reports one value as both its \<^verbatim>\<open>hc\<close> scalar and its peak memory.\<close>

definition hc_only :: "pyfloat \<Rightarrow> sample" where
  "hc_only v = (wall_only (Fl 5))\<lparr>hc := v, maxrss_kb := v\<rparr>"

text \<open>
  A table as bench.py writes it, for grid size 48 and three configurations, and what
  \<^verbatim>\<open>load\<close> returns for it; used for concrete instances.
\<close>

definition example_table :: csv_grid where
  "example_table =
     [fieldnames,
      [''48'', ''10.0'', ''nan'', ''1.0'', ''nan'', ''1'', ''10.0'', ''nan'', ''1.0'', ''1.0'',
       ''nan'', ''1.0'', ''nan''],
      [''48'', ''10.0'', ''nan'', ''1.0'', ''nan'', ''2'', ''5.0'', ''nan'', ''2.0'', ''1.0'',
       ''nan'', ''1.0'', ''nan''],
      [''48'', ''10.0'', ''nan'', ''1.0'', ''nan'', ''4'', ''2.5'', ''nan'', ''4.0'', ''1.0'',
       ''nan'', ''1.0'', ''nan'']]"

definition example_loaded :: loaded where
  "example_loaded =
     \<lparr>ngrid = 48, T1_wall = Fl 10, T1_app = NaN, l_hc1 = Fl 1, l_hp1 = NaN,
      P = [1, 2, 4], Tp = [Fl 10, Fl 5, Fl (5 / 2)], Sp = [Fl 1, Fl 2, Fl 4],
      Ep = [Fl 1, Fl 1, Fl 1], Hc = [Fl 1, Fl 1, Fl 1], Hp = [NaN, NaN, NaN],
      Rss = [NaN, NaN, NaN]\<rparr>"

text \<open>A driver that never converges on non-finite data, for concrete instances.\<close>

definition never_converges :: nonfinite_fit where
  "never_converges X y = None"

text \<open>A table with a single configuration: one thread, wall time equal to the baseline.\<close>

definition single_row_table :: csv_grid where
  "single_row_table =
     [fieldnames,
      [''48'', ''2.0'', ''nan'', ''nan'', ''nan'', ''1'', ''2.0'', ''nan'', ''1.0'', ''1.0'',
       ''nan'', ''nan'', ''nan'']]"

text \<open>
  A float is printable by \<open>fin\<close> when its text is not empty and reads back as the float:
  what Python guarantees of \<^verbatim>\<open>float(repr(x))\<close>. The non-finite values always are.
\<close>

definition printable :: "(real \<Rightarrow> string) \<Rightarrow> pyfloat \<Rightarrow> bool" where
  "printable fin x = (py_repr fin x \<noteq> [] \<and> py_float (py_repr fin x) = Inr x)"

text \<open>The floats of a report that \<^verbatim>\<open>load\<close> reads back.\<close>

definition reloaded_floats :: "baseline \<Rightarrow> row list \<Rightarrow> pyfloat set" where
  "reloaded_floats b rows =
     {T1_wall_s b, T1_app_s b, hc1 b, hp1 b}
     \<union> (\<Union>r \<in> set rows. {Tp_wall_s r, row_speedup r, row_efficiency r, row_maxrss_kb r,
                            hc_med r, hp_med r})"

text \<open>The text Python prints for the few finite values of the concrete instances.\<close>

definition repr_example :: "real \<Rightarrow> string" where
  "repr_example r =
     (if r = 10 then ''10.0'' else if r = 7 then ''7.0'' else if r = 5 then ''5.0''
      else if r = 2 then ''2.0'' else if r = 1 then ''1.0'' else ''0.0'')"

definition example_baseline :: baseline where
  "example_baseline = \<lparr>T1_wall_s = Fl 10, T1_app_s = NaN, hc1 = Fl 1, hp1 = NaN\<rparr>"

definition example_row :: row where
  "example_row = \<lparr>threads = 2, Tp_wall_s = Fl 5, Tp_app_s = Fl 5, row_speedup = Fl 2,
     row_efficiency = Fl 1, row_maxrss_kb = NaN, hc_med = Fl 1, hp_med = NaN\<rparr>"

text \<open>The cells \<^verbatim>\<open>writerow\<close> writes for one row, in the order of the field names.\<close>

definition written_cells :: "(real \<Rightarrow> string) \<Rightarrow> int \<Rightarrow> baseline \<Rightarrow> row \<Rightarrow> string list" where
  "written_cells fin N b r =
     [str_int N, py_repr fin (T1_wall_s b), py_repr fin (T1_app_s b), py_repr fin (hc1 b),
      py_repr fin (hp1 b), str_int (threads r), py_repr fin (Tp_wall_s r),
      py_repr fin (Tp_app_s r), py_repr fin (row_speedup r), py_repr fin (row_efficiency r),
      py_repr fin (row_maxrss_kb r), py_repr fin (hc_med r), py_repr fin (hp_med r)]"

text \<open>What \<^verbatim>\<open>load\<close> is expected to return for a report: every field but \<^verbatim>\<open>Tp_app_s\<close>.\<close>

definition reloaded :: "int \<Rightarrow> baseline \<Rightarrow> row list \<Rightarrow> loaded" where
  "reloaded N b rows =
     \<lparr>ngrid = N, T1_wall = T1_wall_s b, T1_app = T1_app_s b, l_hc1 = hc1 b, l_hp1 = hp1 b,
      P = map threads rows, Tp = map Tp_wall_s rows, Sp = map row_speedup rows,
      Ep = map row_efficiency rows, Hc = map hc_med rows, Hp = map hp_med rows,
      Rss = map row_maxrss_kb rows\<rparr>"

section \<open>Properties: medians\<close>

lemma length_binarysort: "length (binarysort a rest) = length a + length rest"
  by (induction rest arbitrary: a) (auto simp: insert_at_def)

lemma length_py_sorted: "length (py_sorted xs) = length xs"
  by (auto simp: py_sorted_def length_binarysort)

lemmas sort_defs = py_sorted_def count_run_def bisect.simps insert_at_def

lemma py_sorted_eq_Nil: "py_sorted xs = [] \<longleftrightarrow> xs = []"
  using length_py_sorted [of xs] by (cases xs) auto

lemma med_total: "\<exists>m. med vals = Inr m"
  by (auto simp: med_def median_def py_div_def Let_def py_sorted_eq_Nil)

section \<open>Properties: speedup and efficiency\<close>

text \<open>
  C5. Speedup is \<open>T1 / Tp\<close> when \<open>Tp\<close> is a positive number, and undefined (NaN) when
  \<open>Tp\<close> is missing or not positive. Efficiency is the speedup divided by the thread count,
  undefined when the thread count is not positive and whenever the speedup is undefined.
  Every row of the sweep carries exactly these two values for its median wall time. With
  \<open>T1 = 10\<close> and wall times 10, 5 and 2.5 at 1, 2 and 4 threads the sweep yields speedups
  1, 2, 4 and efficiencies 1, 1, 1.
\<close>

theorem speedup_efficiency_spec:
  fixes t t1 :: real and T1 :: pyfloat and p :: int and s :: real and Sp T1r :: pyfloat
    and runs :: "sample list" and r :: row
  shows
  "(0 < t \<longrightarrow> speedup (Fl t1) (Fl t) = Inr (Fl (t1 / t)))
 \<and> (t \<le> 0 \<longrightarrow> speedup T1 (Fl t) = Inr NaN)
 \<and> speedup T1 NaN = Inr NaN
 \<and> (0 < p \<longrightarrow> efficiency (Fl s) p = Inr (Fl (s / of_int p)))
 \<and> (p \<le> 0 \<longrightarrow> efficiency Sp p = Inr NaN)
 \<and> (0 < p \<longrightarrow> efficiency NaN p = Inr NaN)
 \<and> (mk_row T1r p runs = Inr r \<longrightarrow>
       threads r = p \<and> speedup T1r (Tp_wall_s r) = Inr (row_speedup r)
       \<and> efficiency (row_speedup r) p = Inr (row_efficiency r))
 \<and> (\<exists>rs. mk_rows (Fl 10) (\<lambda>q. replicate 3 (wall_only (Fl (10 / of_int q)))) [1, 2, 4] = Inr rs
       \<and> map (\<lambda>r. (threads r, Tp_wall_s r, row_speedup r, row_efficiency r)) rs
           = [(1, Fl 10, Fl 1, Fl 1), (2, Fl 5, Fl 2, Fl 1), (4, Fl (5 / 2), Fl 4, Fl 1)])"
proof -
  have general: "(0 < t \<longrightarrow> speedup (Fl t1) (Fl t) = Inr (Fl (t1 / t)))
     \<and> (t \<le> 0 \<longrightarrow> speedup T1 (Fl t) = Inr NaN)
     \<and> speedup T1 NaN = Inr NaN
     \<and> (0 < p \<longrightarrow> efficiency (Fl s) p = Inr (Fl (s / of_int p)))
     \<and> (p \<le> 0 \<longrightarrow> efficiency Sp p = Inr NaN)
     \<and> (0 < p \<longrightarrow> efficiency NaN p = Inr NaN)"
    by (auto simp: speedup_def efficiency_def py_div_def fgt_def)
  have row: "mk_row T1r p runs = Inr r \<longrightarrow>
       threads r = p \<and> speedup T1r (Tp_wall_s r) = Inr (row_speedup r)
       \<and> efficiency (row_speedup r) p = Inr (row_efficiency r)"
    by (auto simp: mk_row_def ebind_def split: sum.splits)
  have example: "\<exists>rs. mk_rows (Fl 10) (\<lambda>q. replicate 3 (wall_only (Fl (10 / of_int q)))) [1, 2, 4] = Inr rs
       \<and> map (\<lambda>r. (threads r, Tp_wall_s r, row_speedup r, row_efficiency r)) rs
           = [(1, Fl 10, Fl 1, Fl 1), (2, Fl 5, Fl 2, Fl 1), (4, Fl (5 / 2), Fl 4, Fl 1)]"
    by (simp add: mk_row_def wall_only_def med_def median_def sort_defs ebind_def speedup_def
        efficiency_def py_div_def fgt_def numeral_3_eq_3)
  from general row example show ?thesis by blast
qed

theorem speedup_efficiency_spec_witness:
  "speedup (Fl 10) (Fl 5) = Inr (Fl 2) \<and> speedup (Fl 10) (Fl 0) = Inr NaN
 \<and> efficiency (Fl 2) 2 = Inr (Fl 1) \<and> efficiency (Fl 2) 0 = Inr NaN
 \<and> efficiency NaN 2 = Inr NaN
 \<and> mk_row (Fl 10) 2 [wall_only (Fl 5)] =
       Inr \<lparr>threads = 2, Tp_wall_s = Fl 5, Tp_app_s = NaN, row_speedup = Fl 2,
         row_efficiency = Fl 1, row_maxrss_kb = NaN, hc_med = NaN, hp_med = NaN\<rparr>"
proof -
  have r: "mk_row (Fl 10) 2 [wall_only (Fl 5)] =
       Inr \<lparr>threads = 2, Tp_wall_s = Fl 5, Tp_app_s = NaN, row_speedup = Fl 2,
         row_efficiency = Fl 1, row_maxrss_kb = NaN, hc_med = NaN, hp_med = NaN\<rparr>"
    by (simp add: mk_row_def wall_only_def med_def median_def sort_defs ebind_def speedup_def
        efficiency_def py_div_def fgt_def)
  show ?thesis
    using speedup_efficiency_spec [of 5 10 "Fl 10" 2 2 "Fl 2" "Fl 10" "[wall_only (Fl 5)]"]
      speedup_efficiency_spec [of 0 10 "Fl 10" 0 2 "Fl 2" "Fl 10" "[wall_only (Fl 5)]"] r
    by simp
qed

section \<open>Properties: extraction of the markers\<close>

text \<open>
  C2. A correctness scalar printed on stderr only is not found: the extractor looks for
  \<^verbatim>\<open>hc:\<close> and \<^verbatim>\<open>hp:\<close> in stdout alone and records the value as missing, while the
  same line on stdout is read, and the internal timer is read from either stream.
\<close>

theorem scalar_on_stderr_is_missed:
  "parse_hc [] ''hc: 1.5'' = Inr NaN \<and> parse_hp [] ''hp: 2.5'' = Inr NaN
 \<and> parse_hc ''hc: 1.5'' [] = Inr (Fl (3 / 2)) \<and> parse_hp ''hp: 2.5'' [] = Inr (Fl (5 / 2))
 \<and> parse_app_time [] ''[bandwidth_grid_total] 1.5 s'' = Inr (Fl (3 / 2))"
  by (simp add: parse_hc_def parse_hp_def parse_app_time_def scalar_match_here_def
      app_time_match_here_def is_prefix_def is_space_def is_numchar_def is_digit_def
      py_float_def strip_def parse_number_def is_e_def parse_decimal_def digits_val_def
      digit_val_def lower_def Let_def)

section \<open>Properties: the median of a partly missing field\<close>

text \<open>
  C1. Three repeats of which only the first reports \<^verbatim>\<open>hc\<close> (and a peak memory of the
  same value): the peak memory, filtered for NaN before the median, aggregates to that
  value, but the \<^verbatim>\<open>hc\<close> aggregate is NaN, not the median 1 of its non-missing values.
\<close>

theorem median_keeps_missing_values:
  "mk_row (Fl 10) 2 [hc_only (Fl 1), hc_only NaN, hc_only NaN] =
     Inr \<lparr>threads = 2, Tp_wall_s = Fl 5, Tp_app_s = NaN, row_speedup = Fl 2,
          row_efficiency = Fl 1, row_maxrss_kb = Fl 1, hc_med = NaN, hp_med = NaN\<rparr>
 \<and> med (filter (\<lambda>v. \<not> isnan v) [Fl 1, NaN, NaN]) = Inr (Fl 1)"
  by (simp add: mk_row_def hc_only_def wall_only_def med_def median_def sort_defs ebind_def
        speedup_def efficiency_def py_div_def fgt_def)

section \<open>Properties: throughput\<close>

text \<open>
  C8. When both workload sizes are given, the throughput figure holds, for every
  configuration with a non-zero wall time \<open>t\<close>, the value
  \<open>nstrike * ngrid\<^sup>2 * (mrange + 1) / t\<close> in millions per second; when either is absent no
  throughput figure is written. For grid size 48, 30 strikes, secondary dimension 99 and a
  wall time of 2 s the work is 6912000 units and the throughput 3456000 per second, that
  is 3.456 million per second.
\<close>

theorem throughput_spec:
  "((\<forall>t \<in> set ts. t \<noteq> 0) \<longrightarrow>
      throughput_step (Some m) (Some k) Ps (map Fl ts) n files =
       (files(''throughput.png'' \<mapsto>
          Figure [(as_float Ps, map (\<lambda>t. Fl (real_of_int (k * n\<^sup>2 * (m + 1)) / t / 1000000)) ts)]),
        None))
 \<and> throughput_step None nstrike Ps Tps n files = (files, None)
 \<and> throughput_step mrange None Ps Tps n files = (files, None)
 \<and> QP 30 48 99 = 6912000
 \<and> throughput [Fl 2] 48 30 99 = [Fl 3456000]
 \<and> snd (throughput_step (Some 99) (Some 30) [1] [Fl 2] 48 files) = None
 \<and> fst (throughput_step (Some 99) (Some 30) [1] [Fl 2] 48 files) ''throughput.png''
       = Some (Figure [([Fl 1], [Fl (3456 / 1000)])])"
  by (auto simp: throughput_step_def throughput_def save_throughput_def QP_def as_float_def
      split: option.splits)

theorem throughput_spec_witness:
  "throughput_step (Some 99) (Some 30) [1, 2] (map Fl [2, 4]) 48 Map.empty =
       (Map.empty(''throughput.png'' \<mapsto>
          Figure [(as_float [1, 2], [Fl (3456 / 1000), Fl (1728 / 1000)])]), None)"
  using throughput_spec [of "[2, 4]" 99 30 "[1, 2]" 48 Map.empty]
  by simp

section \<open>Properties: the parallel-baseline speedup figure\<close>

lemma ebind_Inr_iff: "ebind m f = Inr y \<longleftrightarrow> (\<exists>x. m = Inr x \<and> f x = Inr y)"
  by (cases m) (auto simp: ebind_def)

lemma load_rows_length: "load_rows rs = Inr cs \<Longrightarrow> length cs = length rs"
  by (induction rs arbitrary: cs) (auto simp: ebind_Inr_iff)

lemma load_lengths:
  assumes "load g = Inr L"
  shows "length (Tp L) = length (P L)" and "length (Ep L) = length (P L)" and "P L \<noteq> []"
  using assms
  by (auto simp: load_def ebind_Inr_iff split: list.splits dest!: load_rows_length)

lemma index_of_less: "v \<in> set xs \<Longrightarrow> index_of v xs < length xs"
  by (induction xs) auto

lemma ideal_line_nonempty: "p \<noteq> [] \<Longrightarrow> \<exists>l. ideal_line p = Inr l"
  by (cases p) (auto simp: ideal_line_def)

lemma as_float_eq_Nil: "as_float ps = [] \<longleftrightarrow> ps = []"
  by (simp add: as_float_def)

lemma save_speedup_parallel_writes:
  assumes "1 \<in> set Ps" and "length Tps = length Ps"
  shows "\<exists>fig. save_speedup_parallel Ps Tps files =
           (files(''speedup_parallel_baseline.png'' \<mapsto> Figure fig), None)"
proof -
  from assms have i: "index_of 1 Ps < length Tps" using index_of_less by metis
  from assms(1) have "as_float Ps \<noteq> []" by (auto simp: as_float_eq_Nil)
  then obtain l where l: "ideal_line (as_float Ps) = Inr l" using ideal_line_nonempty by blast
  have "save_speedup_parallel Ps Tps files =
      (files(''speedup_parallel_baseline.png'' \<mapsto>
         Figure [(as_float Ps, map (\<lambda>t. np_div (Tps ! index_of 1 Ps) t) Tps), (as_float Ps, l)]), None)"
    using assms(1) i l by (simp add: save_speedup_parallel_def Let_def)
  then show ?thesis by blast
qed

lemma run_steps_frame:
  assumes "\<And>s fl. s \<in> set steps \<Longrightarrow> s (fl(n \<mapsto> a)) = ((fst (s fl))(n \<mapsto> a), snd (s fl))"
  shows "run_steps steps (fl(n \<mapsto> a)) = ((fst (run_steps steps fl))(n \<mapsto> a), snd (run_steps steps fl))"
  using assms
proof (induction steps arbitrary: fl)
  case Nil
  then show ?case by simp
next
  case (Cons s steps)
  have s: "s (fl(n \<mapsto> a)) = ((fst (s fl))(n \<mapsto> a), snd (s fl))"
    by (rule Cons.prems) simp
  have rest: "\<And>t fl. t \<in> set steps \<Longrightarrow> t (fl(n \<mapsto> a)) = ((fst (t fl))(n \<mapsto> a), snd (t fl))"
    by (rule Cons.prems) simp
  show ?case
  proof (cases "s fl")
    case (Pair fl' e)
    have s': "s (fl(n \<mapsto> a)) = (fl'(n \<mapsto> a), e)" using s Pair by (simp only: fst_conv snd_conv)
    show ?thesis
    proof (cases e)
      case None
      have "run_steps (s # steps) (fl(n \<mapsto> a)) = run_steps steps (fl'(n \<mapsto> a))"
        by (simp only: run_steps.simps s' None prod.case option.case)
      moreover have "run_steps (s # steps) fl = run_steps steps fl'"
        by (simp only: run_steps.simps Pair None prod.case option.case)
      ultimately show ?thesis using Cons.IH [OF rest, of fl'] by (simp only:)
    next
      case (Some x)
      have "run_steps (s # steps) (fl(n \<mapsto> a)) = (fl'(n \<mapsto> a), Some x)"
        by (simp only: run_steps.simps s' Some prod.case option.case)
      moreover have "run_steps (s # steps) fl = (fl', Some x)"
        by (simp only: run_steps.simps Pair Some prod.case option.case)
      ultimately show ?thesis by (simp only: fst_conv snd_conv)
    qed
  qed
qed

lemma commute_correctness:
  "save_correctness_table Ps Hcs Hps c h (fl(''speedup_parallel_baseline.png'' \<mapsto> a)) =
     ((fst (save_correctness_table Ps Hcs Hps c h fl))(''speedup_parallel_baseline.png'' \<mapsto> a),
      snd (save_correctness_table Ps Hcs Hps c h fl))"
  by (auto simp: save_correctness_table_def fun_upd_twist)

lemma commute_summary:
  "save_summary Ps Tps T Es (fl(''speedup_parallel_baseline.png'' \<mapsto> a)) =
     ((fst (save_summary Ps Tps T Es fl))(''speedup_parallel_baseline.png'' \<mapsto> a),
      snd (save_summary Ps Tps T Es fl))"
  by (auto simp: save_summary_def Let_def fun_upd_twist split: sum.splits)

lemma commute_amdahl:
  "n \<noteq> ''amdahl.txt'' \<Longrightarrow> amdahl_step nf p Tps T (fl(n \<mapsto> a)) =
     ((fst (amdahl_step nf p Tps T fl))(n \<mapsto> a), snd (amdahl_step nf p Tps T fl))"
  by (auto simp: amdahl_step_def fun_upd_twist split: sum.splits)

lemma commute_throughput:
  "throughput_step mr ns Ps Tps n (fl(''speedup_parallel_baseline.png'' \<mapsto> a)) =
     ((fst (throughput_step mr ns Ps Tps n fl))(''speedup_parallel_baseline.png'' \<mapsto> a),
      snd (throughput_step mr ns Ps Tps n fl))"
  by (auto simp: throughput_step_def save_throughput_def fun_upd_twist split: option.splits)

lemma main_without_parallel:
  assumes "load g = Inr L"
  shows "snd (postprocess_main nf mr ns g files)
           = snd (run_steps (take 1 (postprocess_steps nf mr ns L) @ drop 2 (postprocess_steps nf mr ns L)) files)
       \<and> (\<forall>f. f \<noteq> ''speedup_parallel_baseline.png'' \<longrightarrow>
             fst (postprocess_main nf mr ns g files) f
           = fst (run_steps (take 1 (postprocess_steps nf mr ns L) @ drop 2 (postprocess_steps nf mr ns L)) files) f)"
proof -
  let ?rest = "[save_correctness_table (P L) (Hc L) (Hp L) (l_hc1 L) (l_hp1 L),
      save_summary (P L) (Tp L) (T1_wall L) (Ep L),
      amdahl_step nf (as_float (P L)) (Tp L) (T1_wall L),
      throughput_step mr ns (P L) (Tp L) (ngrid L)]"
  let ?n = "''speedup_parallel_baseline.png''"
  have frame: "run_steps ?rest (fl(?n \<mapsto> a)) = ((fst (run_steps ?rest fl))(?n \<mapsto> a), snd (run_steps ?rest fl))" for fl a
    by (rule run_steps_frame) (auto simp: commute_correctness commute_summary commute_amdahl commute_throughput)
  obtain f1 e1 where s1: "save_speedup_serial (P L) (Sp L) files = (f1, e1)" by (cases "save_speedup_serial (P L) (Sp L) files")
  have main: "postprocess_main nf mr ns g files =
     run_steps (save_speedup_serial (P L) (Sp L) # save_speedup_parallel (P L) (Tp L) # ?rest) files"
    using assms by (simp add: postprocess_main_def postprocess_steps_def)
  have without: "run_steps (take 1 (postprocess_steps nf mr ns L) @ drop 2 (postprocess_steps nf mr ns L)) files
     = run_steps (save_speedup_serial (P L) (Sp L) # ?rest) files"
    by (simp add: postprocess_steps_def)
  show ?thesis
  proof (cases e1)
    case (Some e)
    then show ?thesis unfolding main without using s1 by simp
  next
    case None
    have "(\<exists>fig. save_speedup_parallel (P L) (Tp L) f1 = (f1(?n \<mapsto> Figure fig), None))
        \<or> save_speedup_parallel (P L) (Tp L) f1 = (f1, None)"
      using save_speedup_parallel_writes [OF _ load_lengths(1) [OF assms], of f1]
      by (cases "1 \<in> set (P L)") (auto simp: save_speedup_parallel_def)
    then consider fig where "save_speedup_parallel (P L) (Tp L) f1 = (f1(?n \<mapsto> Figure fig), None)"
      | "save_speedup_parallel (P L) (Tp L) f1 = (f1, None)" by blast
    then show ?thesis
    proof cases
      case 1
      have "run_steps (save_speedup_serial (P L) (Sp L) # save_speedup_parallel (P L) (Tp L) # ?rest) files
          = run_steps ?rest (f1(?n \<mapsto> Figure fig))"
        using s1 None 1 by (simp only: run_steps.simps prod.case option.case)
      moreover have "run_steps (save_speedup_serial (P L) (Sp L) # ?rest) files = run_steps ?rest f1"
        using s1 None by (simp only: run_steps.simps prod.case option.case)
      ultimately show ?thesis unfolding main without using frame [of f1 "Figure fig"] by simp
    next
      case 2
      have "run_steps (save_speedup_serial (P L) (Sp L) # save_speedup_parallel (P L) (Tp L) # ?rest) files
          = run_steps ?rest f1"
        using s1 None 2 by (simp only: run_steps.simps prod.case option.case)
      moreover have "run_steps (save_speedup_serial (P L) (Sp L) # ?rest) files = run_steps ?rest f1"
        using s1 None by (simp only: run_steps.simps prod.case option.case)
      ultimately show ?thesis unfolding main without by simp
    qed
  qed
qed

text \<open>
  C10. On a loaded table, the parallel-baseline step writes its figure exactly when some
  configuration has thread count 1; otherwise it returns with the files as they were. It
  never raises, and it touches no other file: the whole report, apart from this one
  figure, is the report produced without the step.
\<close>

theorem parallel_baseline_iff:
  assumes "load g = Inr L"
  shows "(1 \<in> set (P L) \<longrightarrow>
          (\<exists>fig. save_speedup_parallel (P L) (Tp L) files =
             (files(''speedup_parallel_baseline.png'' \<mapsto> Figure fig), None)))
       \<and> (1 \<notin> set (P L) \<longrightarrow> save_speedup_parallel (P L) (Tp L) files = (files, None))
       \<and> snd (save_speedup_parallel (P L) (Tp L) files) = None
       \<and> (\<forall>f. f \<noteq> ''speedup_parallel_baseline.png'' \<longrightarrow>
             fst (save_speedup_parallel (P L) (Tp L) files) f = files f)
       \<and> snd (postprocess_main nf mr ns g files)
           = snd (run_steps (take 1 (postprocess_steps nf mr ns L)
                             @ drop 2 (postprocess_steps nf mr ns L)) files)
       \<and> (\<forall>f. f \<noteq> ''speedup_parallel_baseline.png'' \<longrightarrow>
             fst (postprocess_main nf mr ns g files) f
           = fst (run_steps (take 1 (postprocess_steps nf mr ns L)
                             @ drop 2 (postprocess_steps nf mr ns L)) files) f)"
proof -
  have step: "(1 \<in> set (P L) \<longrightarrow>
          (\<exists>fig. save_speedup_parallel (P L) (Tp L) files =
             (files(''speedup_parallel_baseline.png'' \<mapsto> Figure fig), None)))
       \<and> (1 \<notin> set (P L) \<longrightarrow> save_speedup_parallel (P L) (Tp L) files = (files, None))
       \<and> snd (save_speedup_parallel (P L) (Tp L) files) = None
       \<and> (\<forall>f. f \<noteq> ''speedup_parallel_baseline.png'' \<longrightarrow>
             fst (save_speedup_parallel (P L) (Tp L) files) f = files f)"
  proof (cases "1 \<in> set (P L)")
    case True
    from save_speedup_parallel_writes [OF True load_lengths(1) [OF assms], of files]
    obtain fig where "save_speedup_parallel (P L) (Tp L) files =
           (files(''speedup_parallel_baseline.png'' \<mapsto> Figure fig), None)" by blast
    with True show ?thesis by auto
  next
    case False
    then show ?thesis by (simp add: save_speedup_parallel_def)
  qed
  with main_without_parallel [OF assms, of nf mr ns files] show ?thesis by blast
qed

lemma load_example: "load example_table = Inr example_loaded"
  by (simp add: load_def example_table_def example_loaded_def dictreader_def dict_of_row_def
      fieldnames_def req_int_def req_float_def opt_float_def cell_def ebind_def load_row_def
      py_int_def py_float_def strip_def is_space_def is_digit_def digits_val_def digit_val_def
      parse_number_def parse_decimal_def is_e_def lower_def Let_def)

theorem parallel_baseline_iff_witness:
  "load example_table = Inr example_loaded \<and> 1 \<in> set (P example_loaded)
 \<and> snd (save_speedup_parallel (P example_loaded) (Tp example_loaded) Map.empty) = None
 \<and> (\<exists>fig. save_speedup_parallel (P example_loaded) (Tp example_loaded) Map.empty =
        (Map.empty(''speedup_parallel_baseline.png'' \<mapsto> Figure fig), None))"
  using parallel_baseline_iff [OF load_example, of Map.empty] load_example
  by (simp add: example_loaded_def)

section \<open>Properties: the sweep never raises\<close>

lemma speedup_total: "\<exists>m. speedup a b = Inr m"
  by (simp add: speedup_def py_div_def fgt_def)

lemma efficiency_total: "\<exists>m. efficiency a q = Inr m"
  by (simp add: efficiency_def py_div_def)

lemma mk_row_total: "\<exists>r. mk_row T1w q runs = Inr r \<and> threads r = q"
proof -
  obtain a where a: "med (map wall_s runs) = Inr a" using med_total by blast
  obtain b where b: "med (map app_s runs) = Inr b" using med_total by blast
  obtain c where c: "med (filter (\<lambda>v. \<not> isnan v) (map maxrss_kb runs)) = Inr c" using med_total by blast
  obtain d where d: "med (map hc runs) = Inr d" using med_total by blast
  obtain e where e: "med (map hp runs) = Inr e" using med_total by blast
  obtain s where s: "speedup T1w a = Inr s" using speedup_total by blast
  obtain f where f: "efficiency s q = Inr f" using efficiency_total by blast
  show ?thesis by (simp add: mk_row_def ebind_def a b c d e s f)
qed

lemma mk_rows_total: "\<exists>rs. mk_rows T1w par_runs qs = Inr rs \<and> map threads rs = qs"
proof (induction qs)
  case Nil
  then show ?case by simp
next
  case (Cons q qs)
  obtain r where r: "mk_row T1w q (par_runs q) = Inr r" "threads r = q" using mk_row_total by blast
  from Cons obtain rs where rs: "mk_rows T1w par_runs qs = Inr rs" "map threads rs = qs" by blast
  show ?case by (simp add: ebind_def r rs)
qed

lemma mk_baseline_total: "\<exists>b. mk_baseline runs = Inr b"
proof -
  obtain a where a: "med (map wall_s runs) = Inr a" using med_total by blast
  obtain b where b: "med (map app_s runs) = Inr b" using med_total by blast
  obtain d where d: "med (map hc runs) = Inr d" using med_total by blast
  obtain e where e: "med (map hp runs) = Inr e" using med_total by blast
  show ?thesis by (simp add: mk_baseline_def ebind_def a b d e)
qed

lemma dictwriter_row_dict:
  "\<exists>cells. dictwriter_row fieldnames (row_dict fin N b r) = Inr cells \<and> length cells = 13"
  by (simp add: dictwriter_row_def row_dict_def fieldnames_def)

lemma dictwriter_rows_total:
  "\<exists>body. dictwriter_rows fieldnames (map (row_dict fin N b) rows) = Inr body"
proof (induction rows)
  case Nil
  then show ?case by simp
next
  case (Cons r rows)
  obtain cells where c: "dictwriter_row fieldnames (row_dict fin N b r) = Inr cells"
    using dictwriter_row_dict by blast
  from Cons obtain body where "dictwriter_rows fieldnames (map (row_dict fin N b) rows) = Inr body" by blast
  with c show ?case by (simp add: ebind_def)
qed

lemma write_csv_total: "\<exists>g. write_csv fin N b rows = Inr g"
  using dictwriter_rows_total [of fin N b rows] by (auto simp: write_csv_def ebind_def)

section \<open>Properties: the report of the sweep\<close>

lemma amdahl_step_no_error: "snd (amdahl_step nf p Tps T fl) = None"
  by (auto simp: amdahl_step_def amdahl_serial_fraction_def lstsq_def ebind_def Let_def
      split: sum.splits option.splits prod.splits)

lemma amdahl_step_frame: "f \<noteq> ''amdahl.txt'' \<Longrightarrow> fst (amdahl_step nf p Tps T fl) f = fl f"
  by (auto simp: amdahl_step_def split: sum.splits)

lemma amdahl_step_file:
  "fst (amdahl_step nf p Tps T fl) ''amdahl.txt'' =
     (case amdahl_serial_fraction nf p Tps T of Inr s \<Rightarrow> Some (AmdahlTxt s)
      | Inl e \<Rightarrow> fl ''amdahl.txt'')"
  by (auto simp: amdahl_step_def split: sum.splits)

lemma memory_step_frame: "f \<noteq> ''memory_vs_threads.png'' \<Longrightarrow> fst (memory_step p R fl) f = fl f"
  by (simp add: memory_step_def)

lemma memory_step_all_nan: "\<forall>v \<in> set R. isnan v \<Longrightarrow> memory_step p R fl = (fl, None)"
  by (simp add: memory_step_def list_all_iff)

lemma bench_steps_run:
  assumes "rows \<noteq> []"
  shows "\<exists>ideal. ideal_line (as_float (map threads rows)) = Inr ideal \<and>
     run_steps (bench_steps nf T1w rows) fl =
     amdahl_step nf (as_float (map threads rows)) (map Tp_wall_s rows) T1w
       (fst (memory_step (as_float (map threads rows)) (map row_maxrss_kb rows)
          (fl(''time_vs_threads.png'' \<mapsto> Figure [(as_float (map threads rows), map Tp_wall_s rows)],
              ''speedup.png'' \<mapsto> Figure [(as_float (map threads rows), map row_speedup rows),
                                       (as_float (map threads rows), ideal)],
              ''efficiency.png'' \<mapsto> Figure [(as_float (map threads rows), map row_efficiency rows)]))))"
proof -
  let ?p = "as_float (map threads rows)"
  let ?R = "map row_maxrss_kb rows"
  from assms have "?p \<noteq> []" by (simp add: as_float_def)
  then obtain ideal where i: "ideal_line ?p = Inr ideal" using ideal_line_nonempty by blast
  let ?f3 = "fl(''time_vs_threads.png'' \<mapsto> Figure [(?p, map Tp_wall_s rows)],
              ''speedup.png'' \<mapsto> Figure [(?p, map row_speedup rows), (?p, ideal)],
              ''efficiency.png'' \<mapsto> Figure [(?p, map row_efficiency rows)])"
  obtain f4 where m: "memory_step ?p ?R ?f3 = (f4, None)"
    by (cases "memory_step ?p ?R ?f3") (simp add: memory_step_def split: if_splits)
  obtain f5 where a: "amdahl_step nf ?p (map Tp_wall_s rows) T1w f4 = (f5, None)"
    using amdahl_step_no_error [of nf ?p "map Tp_wall_s rows" T1w f4]
    by (cases "amdahl_step nf ?p (map Tp_wall_s rows) T1w f4") simp
  have "run_steps (bench_steps nf T1w rows) fl = (f5, None)"
    by (simp add: bench_steps_def Let_def time_step_def speedup_step_def i efficiency_step_def m a)
  with m a i show ?thesis by auto
qed

lemma mk_row_erase:
  assumes "mk_row T1w q runs = Inr r"
  shows "mk_row T1w q (map (\<lambda>s. s\<lparr>maxrss_kb := NaN\<rparr>) runs) = Inr (r\<lparr>row_maxrss_kb := NaN\<rparr>)"
proof -
  have f: "filter (\<lambda>v. \<not> isnan v) (map maxrss_kb (map (\<lambda>s. s\<lparr>maxrss_kb := NaN\<rparr>) runs)) = []"
    by (induction runs) auto
  show ?thesis using assms
    by (auto simp: mk_row_def ebind_Inr_iff f med_def comp_def)
qed

lemma mk_rows_erase:
  assumes "mk_rows T1w par qs = Inr rs"
  shows "mk_rows T1w (\<lambda>q. map (\<lambda>s. s\<lparr>maxrss_kb := NaN\<rparr>) (par q)) qs
          = Inr (map (\<lambda>r. r\<lparr>row_maxrss_kb := NaN\<rparr>) rs)"
  using assms
proof (induction qs arbitrary: rs)
  case Nil
  then show ?case by simp
next
  case (Cons q qs)
  from Cons.prems obtain r rs' where r: "mk_row T1w q (par q) = Inr r"
    and rs': "mk_rows T1w par qs = Inr rs'" and rs: "rs = r # rs'"
    by (auto simp: ebind_Inr_iff)
  show ?case using mk_row_erase [OF r] Cons.IH [OF rs'] rs by (simp add: ebind_def)
qed

lemma mk_rows_cong:
  "(\<And>q. q \<in> set qs \<Longrightarrow> par q = par' q) \<Longrightarrow> mk_rows T1w par qs = mk_rows T1w par' qs"
  by (induction qs) auto

lemma mk_row_rss_nan:
  assumes "\<forall>s \<in> set runs. isnan (maxrss_kb s)" and "mk_row T1w q runs = Inr r"
  shows "row_maxrss_kb r = NaN"
proof -
  from assms(1) have "filter (\<lambda>v. \<not> isnan v) (map maxrss_kb runs) = []"
    by (induction runs) auto
  with assms(2) show ?thesis by (auto simp: mk_row_def ebind_Inr_iff med_def)
qed

lemma mk_rows_rss_nan:
  assumes "\<forall>q \<in> set qs. \<forall>s \<in> set (par q). isnan (maxrss_kb s)" and "mk_rows T1w par qs = Inr rs"
  shows "\<forall>v \<in> set (map row_maxrss_kb rs). isnan v"
  using assms
proof (induction qs arbitrary: rs)
  case Nil
  then show ?case by simp
next
  case (Cons q qs)
  from Cons.prems(2) obtain r rs' where r: "mk_row T1w q (par q) = Inr r"
    and rs': "mk_rows T1w par qs = Inr rs'" and rs: "rs = r # rs'"
    by (auto simp: ebind_Inr_iff)
  have "row_maxrss_kb r = NaN" using mk_row_rss_nan [OF _ r] Cons.prems(1) by simp
  moreover have "\<forall>v \<in> set (map row_maxrss_kb rs'). isnan v"
    using Cons.IH [OF _ rs'] Cons.prems(1) by simp
  ultimately show ?case using rs by simp
qed

lemma bench_main_unfold:
  "\<exists>b rows g ideal. mk_baseline serial = Inr b
     \<and> mk_rows (T1_wall_s b) par THREADS = Inr rows \<and> map threads rows = THREADS
     \<and> write_csv fin N b rows = Inr g
     \<and> ideal_line (as_float THREADS) = Inr ideal
     \<and> bench_main fin nf N serial par files =
         amdahl_step nf (as_float THREADS) (map Tp_wall_s rows) (T1_wall_s b)
          (fst (memory_step (as_float THREADS) (map row_maxrss_kb rows)
            (files(''bench_results.csv'' \<mapsto> CsvFile g,
              ''time_vs_threads.png'' \<mapsto> Figure [(as_float THREADS, map Tp_wall_s rows)],
              ''speedup.png'' \<mapsto> Figure [(as_float THREADS, map row_speedup rows),
                                       (as_float THREADS, ideal)],
              ''efficiency.png'' \<mapsto> Figure [(as_float THREADS, map row_efficiency rows)]))))"
proof -
  obtain b where b: "mk_baseline serial = Inr b" using mk_baseline_total by blast
  obtain rows where rows: "mk_rows (T1_wall_s b) par THREADS = Inr rows" "map threads rows = THREADS"
    using mk_rows_total by blast
  obtain g where g: "write_csv fin N b rows = Inr g" using write_csv_total by blast
  from rows(2) have ne: "rows \<noteq> []" by (auto simp: THREADS_def)
  from bench_steps_run [OF ne, of nf "T1_wall_s b" "files(''bench_results.csv'' \<mapsto> CsvFile g)"]
  obtain ideal where "ideal_line (as_float THREADS) = Inr ideal"
    and "run_steps (bench_steps nf (T1_wall_s b) rows) (files(''bench_results.csv'' \<mapsto> CsvFile g)) =
     amdahl_step nf (as_float THREADS) (map Tp_wall_s rows) (T1_wall_s b)
       (fst (memory_step (as_float THREADS) (map row_maxrss_kb rows)
          (files(''bench_results.csv'' \<mapsto> CsvFile g,
              ''time_vs_threads.png'' \<mapsto> Figure [(as_float THREADS, map Tp_wall_s rows)],
              ''speedup.png'' \<mapsto> Figure [(as_float THREADS, map row_speedup rows),
                                       (as_float THREADS, ideal)],
              ''efficiency.png'' \<mapsto> Figure [(as_float THREADS, map row_efficiency rows)]))))"
    unfolding rows(2) by blast
  moreover have "bench_main fin nf N serial par files =
     run_steps (bench_steps nf (T1_wall_s b) rows) (files(''bench_results.csv'' \<mapsto> CsvFile g))"
    by (simp add: bench_main_def b rows g)
  ultimately show ?thesis using b rows g by (intro exI conjI) auto
qed

text \<open>
  C9. When no sample of the sweep has a peak-memory value, the run ends without an
  exception, the memory figure is not written, and the table and the three curves are.
  The other artifacts are unaffected: for any samples with memory values that differ from
  these only in the memory field, every file other than the memory figure and the table
  (whose memory column differs) is the same.
\<close>

theorem memory_artifact_omitted:
  assumes "\<forall>q \<in> set THREADS. \<forall>s \<in> set (par_runs q). isnan (maxrss_kb s)"
  shows "snd (bench_main fin nf N serial par_runs files) = None
   \<and> fst (bench_main fin nf N serial par_runs files) ''memory_vs_threads.png''
       = files ''memory_vs_threads.png''
   \<and> (\<forall>f \<in> {''bench_results.csv'', ''time_vs_threads.png'', ''speedup.png'', ''efficiency.png''}.
         fst (bench_main fin nf N serial par_runs files) f \<noteq> None)
   \<and> (\<forall>with_mem.
         (\<forall>q \<in> set THREADS. map (\<lambda>s. s\<lparr>maxrss_kb := NaN\<rparr>) (with_mem q) = par_runs q) \<longrightarrow>
         snd (bench_main fin nf N serial with_mem files) = None \<and>
         (\<forall>f. f \<noteq> ''memory_vs_threads.png'' \<and> f \<noteq> ''bench_results.csv'' \<longrightarrow>
            fst (bench_main fin nf N serial with_mem files) f
          = fst (bench_main fin nf N serial par_runs files) f))"
proof -
  let ?p = "as_float THREADS"
  from bench_main_unfold [of serial par_runs fin N nf files]
  obtain b rows g ideal where b: "mk_baseline serial = Inr b"
    and rows: "mk_rows (T1_wall_s b) par_runs THREADS = Inr rows"
    and g: "write_csv fin N b rows = Inr g"
    and ideal: "ideal_line ?p = Inr ideal"
    and main: "bench_main fin nf N serial par_runs files =
         amdahl_step nf ?p (map Tp_wall_s rows) (T1_wall_s b)
          (fst (memory_step ?p (map row_maxrss_kb rows)
            (files(''bench_results.csv'' \<mapsto> CsvFile g,
              ''time_vs_threads.png'' \<mapsto> Figure [(?p, map Tp_wall_s rows)],
              ''speedup.png'' \<mapsto> Figure [(?p, map row_speedup rows), (?p, ideal)],
              ''efficiency.png'' \<mapsto> Figure [(?p, map row_efficiency rows)]))))"
    by blast
  have nan: "\<forall>v \<in> set (map row_maxrss_kb rows). isnan v"
    using mk_rows_rss_nan [OF assms rows] .
  note mem = memory_step_all_nan [OF nan]
  have c1: "snd (bench_main fin nf N serial par_runs files) = None"
    unfolding main by (rule amdahl_step_no_error)
  have c2: "fst (bench_main fin nf N serial par_runs files) ''memory_vs_threads.png''
       = files ''memory_vs_threads.png''"
    unfolding main mem by (simp add: amdahl_step_frame)
  have c3: "\<forall>f \<in> {''bench_results.csv'', ''time_vs_threads.png'', ''speedup.png'', ''efficiency.png''}.
         fst (bench_main fin nf N serial par_runs files) f \<noteq> None"
    unfolding main mem by (simp add: amdahl_step_frame)
  have c4: "snd (bench_main fin nf N serial with_mem files) = None \<and>
         (\<forall>f. f \<noteq> ''memory_vs_threads.png'' \<and> f \<noteq> ''bench_results.csv'' \<longrightarrow>
            fst (bench_main fin nf N serial with_mem files) f
          = fst (bench_main fin nf N serial par_runs files) f)"
    if w: "\<forall>q \<in> set THREADS. map (\<lambda>s. s\<lparr>maxrss_kb := NaN\<rparr>) (with_mem q) = par_runs q" for with_mem
  proof -
    from bench_main_unfold [of serial with_mem fin N nf files] b ideal
    obtain rows' g' where rows': "mk_rows (T1_wall_s b) with_mem THREADS = Inr rows'"
      and main': "bench_main fin nf N serial with_mem files =
         amdahl_step nf ?p (map Tp_wall_s rows') (T1_wall_s b)
          (fst (memory_step ?p (map row_maxrss_kb rows')
            (files(''bench_results.csv'' \<mapsto> CsvFile g',
              ''time_vs_threads.png'' \<mapsto> Figure [(?p, map Tp_wall_s rows')],
              ''speedup.png'' \<mapsto> Figure [(?p, map row_speedup rows'), (?p, ideal)],
              ''efficiency.png'' \<mapsto> Figure [(?p, map row_efficiency rows')]))))"
      by auto
    have "mk_rows (T1_wall_s b) par_runs THREADS
        = mk_rows (T1_wall_s b) (\<lambda>q. map (\<lambda>s. s\<lparr>maxrss_kb := NaN\<rparr>) (with_mem q)) THREADS"
      by (rule mk_rows_cong) (use w in simp)
    with mk_rows_erase [OF rows'] rows
    have eq: "rows = map (\<lambda>r. r\<lparr>row_maxrss_kb := NaN\<rparr>) rows'" by simp
    have same: "map Tp_wall_s rows = map Tp_wall_s rows'" "map row_speedup rows = map row_speedup rows'"
      "map row_efficiency rows = map row_efficiency rows'"
      unfolding eq by simp_all
    have e: "snd (bench_main fin nf N serial with_mem files) = None"
      unfolding main' by (rule amdahl_step_no_error)
    have "fst (bench_main fin nf N serial with_mem files) f
          = fst (bench_main fin nf N serial par_runs files) f"
      if f: "f \<noteq> ''memory_vs_threads.png''" "f \<noteq> ''bench_results.csv''" for f
    proof (cases "f = ''amdahl.txt''")
      case True
      show ?thesis unfolding main main' True amdahl_step_file same
        by (simp add: memory_step_frame split: sum.splits)
    next
      case False
      show ?thesis unfolding main main'
        using f False by (simp add: amdahl_step_frame memory_step_frame same)
    qed
    with e show ?thesis by blast
  qed
  from c1 c2 c3 c4 show ?thesis by blast
qed

theorem memory_artifact_omitted_witness:
  "snd (bench_main (\<lambda>r. ''1.0'') (\<lambda>X y. None) 48 [wall_only (Fl 10)]
          (\<lambda>q. [wall_only (Fl 10)]) Map.empty) = None
 \<and> fst (bench_main (\<lambda>r. ''1.0'') (\<lambda>X y. None) 48 [wall_only (Fl 10)]
          (\<lambda>q. [wall_only (Fl 10)]) Map.empty) ''memory_vs_threads.png'' = None"
proof -
  have h: "\<forall>q \<in> set THREADS. \<forall>s \<in> set ((\<lambda>q. [wall_only (Fl 10)]) q). isnan (maxrss_kb s)"
    by (simp add: wall_only_def)
  from memory_artifact_omitted [OF h, of "\<lambda>r. ''1.0''" "\<lambda>X y. None" 48 "[wall_only (Fl 10)]" Map.empty]
  show ?thesis by simp
qed

section \<open>Properties: the summary\<close>




lemma fge_iff: "\<not> isnan a \<Longrightarrow> \<not> isnan b \<Longrightarrow> fge a b \<longleftrightarrow> \<not> flt a b"
  by (simp add: fge_def)







section \<open>Properties: the least-squares fit\<close>

text \<open>The sums of products that the fit uses, over the list of rows paired with the response.\<close>

lemma dot_zip:
  "length X = length y \<Longrightarrow>
     dot (map fst X) (map fst X) = sum_list (map (\<lambda>((a, b), v). a * a) (zip X y))
   \<and> dot (map fst X) (map snd X) = sum_list (map (\<lambda>((a, b), v). a * b) (zip X y))
   \<and> dot (map snd X) (map snd X) = sum_list (map (\<lambda>((a, b), v). b * b) (zip X y))
   \<and> dot (map fst X) y = sum_list (map (\<lambda>((a, b), v). a * v) (zip X y))
   \<and> dot (map snd X) y = sum_list (map (\<lambda>((a, b), v). b * v) (zip X y))"
  by (induction X y rule: list_induct2) (auto simp: dot_def)

lemma rss_expand:
  "sum_list (map (\<lambda>((a, b), v). (v - (c0 * a + c1 * b))\<^sup>2) T)
     = sum_list (map (\<lambda>((a, b), v). v * v) T)
       - 2 * c0 * sum_list (map (\<lambda>((a, b), v). a * v) T)
       - 2 * c1 * sum_list (map (\<lambda>((a, b), v). b * v) T)
       + c0\<^sup>2 * sum_list (map (\<lambda>((a, b), v). a * a) T)
       + 2 * c0 * c1 * sum_list (map (\<lambda>((a, b), v). a * b) T)
       + c1\<^sup>2 * sum_list (map (\<lambda>((a, b), v). b * b) T)"
  for T :: "((real \<times> real) \<times> real) list"
  by (induction T) (auto simp: algebra_simps power2_eq_square)

lemma comb_expand:
  "sum_list (map (\<lambda>((a, b), v). (u * a + w * b)\<^sup>2) T)
     = u\<^sup>2 * sum_list (map (\<lambda>((a, b), v). a * a) T)
       + 2 * u * w * sum_list (map (\<lambda>((a, b), v). a * b) T)
       + w\<^sup>2 * sum_list (map (\<lambda>((a, b), v). b * b) T)"
  for T :: "((real \<times> real) \<times> real) list"
  by (induction T) (auto simp: algebra_simps power2_eq_square)

lemma comb_nonneg: "0 \<le> sum_list (map (\<lambda>((a, b), v). (u * a + w * b)\<^sup>2) T)"
  for T :: "((real \<times> real) \<times> real) list"
  by (rule sum_list_nonneg) auto

lemma comb_zero:
  fixes T :: "((real \<times> real) \<times> real) list"
  assumes "sum_list (map (\<lambda>((a, b), v). (u * a + w * b)\<^sup>2) T) = 0"
  shows "\<forall>((a, b), v) \<in> set T. u * a + w * b = 0"
  using assms by (induction T) (auto simp: add_nonneg_eq_0_iff comb_nonneg)

text \<open>Coefficients that satisfy the normal equations minimise the residual sum of squares.\<close>

lemma normal_equations_minimise:
  fixes T :: "((real \<times> real) \<times> real) list"
  assumes "sum_list (map (\<lambda>((a, b), v). a * a) T) * b0 + sum_list (map (\<lambda>((a, b), v). a * b) T) * b1
             = sum_list (map (\<lambda>((a, b), v). a * v) T)"
    and "sum_list (map (\<lambda>((a, b), v). a * b) T) * b0 + sum_list (map (\<lambda>((a, b), v). b * b) T) * b1
             = sum_list (map (\<lambda>((a, b), v). b * v) T)"
  shows "sum_list (map (\<lambda>((a, b), v). (v - (b0 * a + b1 * b))\<^sup>2) T)
       \<le> sum_list (map (\<lambda>((a, b), v). (v - (c0 * a + c1 * b))\<^sup>2) T)"
proof -
  have "sum_list (map (\<lambda>((a, b), v). (v - (c0 * a + c1 * b))\<^sup>2) T)
      - sum_list (map (\<lambda>((a, b), v). (v - (b0 * a + b1 * b))\<^sup>2) T)
      = sum_list (map (\<lambda>((a, b), v). ((c0 - b0) * a + (c1 - b1) * b)\<^sup>2) T)"
    unfolding rss_expand comb_expand assms [symmetric]
    by (simp add: algebra_simps power2_eq_square)
  with comb_nonneg [of "c0 - b0" "c1 - b1" T] show ?thesis by linarith
qed

lemma weighted_sum:
  fixes T :: "((real \<times> real) \<times> real) list"
  shows "sum_list (map (\<lambda>((a, b), v). (u * a + w * b) * v) T)
       = u * sum_list (map (\<lambda>((a, b), v). a * v) T) + w * sum_list (map (\<lambda>((a, b), v). b * v) T)"
    and "sum_list (map (\<lambda>((a, b), v). (u * a + w * b) * a) T)
       = u * sum_list (map (\<lambda>((a, b), v). a * a) T) + w * sum_list (map (\<lambda>((a, b), v). a * b) T)"
    and "sum_list (map (\<lambda>((a, b), v). (u * a + w * b) * b) T)
       = u * sum_list (map (\<lambda>((a, b), v). a * b) T) + w * sum_list (map (\<lambda>((a, b), v). b * b) T)"
  by (induction T) (auto simp: algebra_simps)

lemma null_combination:
  fixes T :: "((real \<times> real) \<times> real) list"
  assumes "\<forall>((a, b), v) \<in> set T. u * a + w * b = 0"
  shows "u * sum_list (map (\<lambda>((a, b), v). a * v) T) + w * sum_list (map (\<lambda>((a, b), v). b * v) T) = 0"
    and "u * sum_list (map (\<lambda>((a, b), v). a * a) T) + w * sum_list (map (\<lambda>((a, b), v). a * b) T) = 0"
    and "u * sum_list (map (\<lambda>((a, b), v). a * b) T) + w * sum_list (map (\<lambda>((a, b), v). b * b) T) = 0"
proof -
  have z: "sum_list (map (\<lambda>((a, b), v). (u * a + w * b) * f a b v) T) = 0" for f :: "real \<Rightarrow> real \<Rightarrow> real \<Rightarrow> real"
    using assms by (induction T) auto
  show "u * sum_list (map (\<lambda>((a, b), v). a * v) T) + w * sum_list (map (\<lambda>((a, b), v). b * v) T) = 0"
    using z [of "\<lambda>a b v. v"] unfolding weighted_sum(1) [symmetric] by simp
  show "u * sum_list (map (\<lambda>((a, b), v). a * a) T) + w * sum_list (map (\<lambda>((a, b), v). a * b) T) = 0"
    using z [of "\<lambda>a b v. a"] unfolding weighted_sum(2) [symmetric] by simp
  show "u * sum_list (map (\<lambda>((a, b), v). a * b) T) + w * sum_list (map (\<lambda>((a, b), v). b * b) T) = 0"
    using z [of "\<lambda>a b v. b"] unfolding weighted_sum(3) [symmetric] by simp
qed

text \<open>
  The three cases of the fit, on the sums: the coefficients returned satisfy the normal
  equations.
\<close>

lemma fit_normal_equations:
  fixes T :: "((real \<times> real) \<times> real) list"
  defines "Saa \<equiv> sum_list (map (\<lambda>((a, b), v). a * a) T)"
    and "Sab \<equiv> sum_list (map (\<lambda>((a, b), v). a * b) T)"
    and "Sbb \<equiv> sum_list (map (\<lambda>((a, b), v). b * b) T)"
    and "Say \<equiv> sum_list (map (\<lambda>((a, b), v). a * v) T)"
    and "Sby \<equiv> sum_list (map (\<lambda>((a, b), v). b * v) T)"
  defines "d \<equiv> Saa * Sbb - Sab * Sab"
  defines "beta \<equiv> (if d \<noteq> 0 then ((Sbb * Say - Sab * Sby) / d, (Saa * Sby - Sab * Say) / d)
                    else if Saa + Sbb = 0 then (0, 0)
                    else (Say / (Saa + Sbb), Sby / (Saa + Sbb)))"
  shows "Saa * fst beta + Sab * snd beta = Say \<and> Sab * fst beta + Sbb * snd beta = Sby"
proof (cases "d \<noteq> 0")
  case True
  have n1: "Saa * (Sbb * Say - Sab * Sby) + Sab * (Saa * Sby - Sab * Say) = d * Say"
    unfolding d_def by (simp add: algebra_simps)
  have n2: "Sab * (Sbb * Say - Sab * Sby) + Sbb * (Saa * Sby - Sab * Say) = d * Sby"
    unfolding d_def by (simp add: algebra_simps)
  have "Saa * ((Sbb * Say - Sab * Sby) / d) + Sab * ((Saa * Sby - Sab * Say) / d) = d * Say / d"
    unfolding n1 [symmetric] by (simp add: add_divide_distrib)
  moreover have "Sab * ((Sbb * Say - Sab * Sby) / d) + Sbb * ((Saa * Sby - Sab * Say) / d) = d * Sby / d"
    unfolding n2 [symmetric] by (simp add: add_divide_distrib)
  ultimately show ?thesis using True unfolding beta_def by simp
next
  case False
  then have d0: "Saa * Sbb = Sab * Sab" unfolding d_def by simp
  have "sum_list (map (\<lambda>((a, b), v). ((- Sab) * a + Saa * b)\<^sup>2) T) = 0"
    unfolding comb_expand Saa_def [symmetric] Sab_def [symmetric] Sbb_def [symmetric]
    using d0 by (simp add: algebra_simps power2_eq_square)
  from null_combination(1) [OF comb_zero [OF this]]
  have p1: "Saa * Sby = Sab * Say" unfolding Say_def Sby_def by simp
  have "sum_list (map (\<lambda>((a, b), v). (Sbb * a + (- Sab) * b)\<^sup>2) T) = 0"
    unfolding comb_expand Saa_def [symmetric] Sab_def [symmetric] Sbb_def [symmetric]
    using d0 by (simp add: algebra_simps power2_eq_square)
  from null_combination(1) [OF comb_zero [OF this]]
  have p2: "Sbb * Say = Sab * Sby" unfolding Say_def Sby_def by simp
  show ?thesis
  proof (cases "Saa + Sbb = 0")
    case True
    have "0 \<le> Saa" "0 \<le> Sbb" unfolding Saa_def Sbb_def by (rule sum_list_nonneg; auto)+
    with True have z: "Saa = 0" "Sbb = 0" by linarith+
    have "sum_list (map (\<lambda>((a, b), v). (1 * a + 0 * b)\<^sup>2) T) = 0"
      unfolding comb_expand using z unfolding Saa_def by simp
    from null_combination(1) [OF comb_zero [OF this]] have "Say = 0" unfolding Say_def by simp
    moreover have "sum_list (map (\<lambda>((a, b), v). (0 * a + 1 * b)\<^sup>2) T) = 0"
      unfolding comb_expand using z unfolding Sbb_def by simp
    from null_combination(1) [OF comb_zero [OF this]] have "Sby = 0" unfolding Sby_def by simp
    ultimately show ?thesis using False True unfolding beta_def by simp
  next
    case nz: False
    have e1: "Saa * Say + Sab * Sby = Say * (Saa + Sbb)" using p2 by (simp add: algebra_simps)
    have e2: "Sab * Say + Sbb * Sby = Sby * (Saa + Sbb)" using p1 by (simp add: algebra_simps)
    have "Saa * (Say / (Saa + Sbb)) + Sab * (Sby / (Saa + Sbb)) = Say * (Saa + Sbb) / (Saa + Sbb)"
      unfolding e1 [symmetric] by (simp add: add_divide_distrib)
    moreover have "Sab * (Say / (Saa + Sbb)) + Sbb * (Sby / (Saa + Sbb)) = Sby * (Saa + Sbb) / (Saa + Sbb)"
      unfolding e2 [symmetric] by (simp add: add_divide_distrib)
    ultimately show ?thesis using False nz unfolding beta_def by simp
  qed
qed

lemma lstsq2_sums:
  assumes "length X = length y"
  shows "lstsq2 X y =
     (let T = zip X y;
          Saa = sum_list (map (\<lambda>((a, b), v). a * a) T);
          Sab = sum_list (map (\<lambda>((a, b), v). a * b) T);
          Sbb = sum_list (map (\<lambda>((a, b), v). b * b) T);
          Say = sum_list (map (\<lambda>((a, b), v). a * v) T);
          Sby = sum_list (map (\<lambda>((a, b), v). b * v) T);
          d = Saa * Sbb - Sab * Sab
      in if d \<noteq> 0 then ((Sbb * Say - Sab * Sby) / d, (Saa * Sby - Sab * Say) / d)
         else if Saa + Sbb = 0 then (0, 0)
         else (Say / (Saa + Sbb), Sby / (Saa + Sbb)))"
  using dot_zip [OF assms] by (simp add: lstsq2_def Let_def)

lemma lstsq2_normal_equations:
  assumes "length X = length y"
  shows "sum_list (map (\<lambda>((a, b), v). a * a) (zip X y)) * fst (lstsq2 X y)
           + sum_list (map (\<lambda>((a, b), v). a * b) (zip X y)) * snd (lstsq2 X y)
         = sum_list (map (\<lambda>((a, b), v). a * v) (zip X y))"
    and "sum_list (map (\<lambda>((a, b), v). a * b) (zip X y)) * fst (lstsq2 X y)
           + sum_list (map (\<lambda>((a, b), v). b * b) (zip X y)) * snd (lstsq2 X y)
         = sum_list (map (\<lambda>((a, b), v). b * v) (zip X y))"
  using fit_normal_equations [of "zip X y"] unfolding lstsq2_sums [OF assms] Let_def by blast+

lemma lstsq2_minimises:
  assumes "length X = length y"
  shows "rss X y (lstsq2 X y) \<le> rss X y c"
  unfolding rss_def
  using normal_equations_minimise [OF lstsq2_normal_equations [OF assms], of "fst c" "snd c"] .

lemma rss_difference:
  fixes T :: "((real \<times> real) \<times> real) list"
  assumes "sum_list (map (\<lambda>((a, b), v). a * a) T) * b0 + sum_list (map (\<lambda>((a, b), v). a * b) T) * b1
             = sum_list (map (\<lambda>((a, b), v). a * v) T)"
    and "sum_list (map (\<lambda>((a, b), v). a * b) T) * b0 + sum_list (map (\<lambda>((a, b), v). b * b) T) * b1
             = sum_list (map (\<lambda>((a, b), v). b * v) T)"
  shows "sum_list (map (\<lambda>((a, b), v). (v - (c0 * a + c1 * b))\<^sup>2) T)
      - sum_list (map (\<lambda>((a, b), v). (v - (b0 * a + b1 * b))\<^sup>2) T)
      = sum_list (map (\<lambda>((a, b), v). ((c0 - b0) * a + (c1 - b1) * b)\<^sup>2) T)"
  unfolding rss_expand comb_expand assms [symmetric]
  by (simp add: algebra_simps power2_eq_square)

text \<open>Among the least-squares solutions, the one returned has the smallest norm.\<close>

lemma lstsq2_minimum_norm:
  assumes len: "length X = length y" and c: "rss X y c \<le> rss X y (lstsq2 X y)"
  shows "(fst (lstsq2 X y))\<^sup>2 + (snd (lstsq2 X y))\<^sup>2 \<le> (fst c)\<^sup>2 + (snd c)\<^sup>2"
proof -
  let ?T = "zip X y"
  define Saa where "Saa = sum_list (map (\<lambda>((a, b), v). a * a) ?T)"
  define Sab where "Sab = sum_list (map (\<lambda>((a, b), v). a * b) ?T)"
  define Sbb where "Sbb = sum_list (map (\<lambda>((a, b), v). b * b) ?T)"
  define Say where "Say = sum_list (map (\<lambda>((a, b), v). a * v) ?T)"
  define Sby where "Sby = sum_list (map (\<lambda>((a, b), v). b * v) ?T)"
  define b0 where "b0 = fst (lstsq2 X y)"
  define b1 where "b1 = snd (lstsq2 X y)"
  define u where "u = fst c - b0"
  define w where "w = snd c - b1"
  have beta: "lstsq2 X y =
      (if Saa * Sbb - Sab * Sab \<noteq> 0
       then ((Sbb * Say - Sab * Sby) / (Saa * Sbb - Sab * Sab),
             (Saa * Sby - Sab * Say) / (Saa * Sbb - Sab * Sab))
       else if Saa + Sbb = 0 then (0, 0)
       else (Say / (Saa + Sbb), Sby / (Saa + Sbb)))"
    unfolding lstsq2_sums [OF len] Let_def Saa_def Sab_def Sbb_def Say_def Sby_def ..
  have "rss X y c - rss X y (lstsq2 X y)
      = sum_list (map (\<lambda>((a, b), v). (u * a + w * b)\<^sup>2) ?T)"
    unfolding rss_def u_def w_def b0_def b1_def
    by (rule rss_difference [OF lstsq2_normal_equations [OF len]])
  with c comb_nonneg [of u w ?T]
  have "sum_list (map (\<lambda>((a, b), v). (u * a + w * b)\<^sup>2) ?T) = 0" by linarith
  note null = null_combination [OF comb_zero [OF this]]
  have n1: "u * Say + w * Sby = 0" using null(1) unfolding Say_def Sby_def .
  have n2: "u * Saa + w * Sab = 0" using null(2) unfolding Saa_def Sab_def .
  have n3: "u * Sab + w * Sbb = 0" using null(3) unfolding Sab_def Sbb_def .
  have orth: "b0 * u + b1 * w = 0 \<or> (u = 0 \<and> w = 0)"
  proof (cases "Saa * Sbb - Sab * Sab \<noteq> 0")
    case True
    have "u * (Saa * Sbb - Sab * Sab) = Sbb * (u * Saa + w * Sab) - Sab * (u * Sab + w * Sbb)"
      by (simp add: algebra_simps)
    with n2 n3 True have "u = 0" by simp
    moreover have "w * (Saa * Sbb - Sab * Sab) = Saa * (u * Sab + w * Sbb) - Sab * (u * Saa + w * Sab)"
      by (simp add: algebra_simps)
    with n2 n3 True have "w = 0" by simp
    ultimately show ?thesis by simp
  next
    case False
    show ?thesis
    proof (cases "Saa + Sbb = 0")
      case True
      with False beta show ?thesis by (simp add: b0_def b1_def)
    next
      case nz: False
      with False beta have "b0 = Say / (Saa + Sbb)" "b1 = Sby / (Saa + Sbb)"
        by (simp_all add: b0_def b1_def)
      then have "b0 * u + b1 * w = (u * Say + w * Sby) / (Saa + Sbb)"
        by (simp add: add_divide_distrib algebra_simps)
      with n1 show ?thesis by simp
    qed
  qed
  from orth have o: "b0 * u + b1 * w = 0" by auto
  have "(fst c)\<^sup>2 + (snd c)\<^sup>2 = b0\<^sup>2 + b1\<^sup>2 + 2 * (b0 * u + b1 * w) + (u\<^sup>2 + w\<^sup>2)"
    unfolding u_def w_def by (simp add: algebra_simps power2_eq_square)
  then have "(fst c)\<^sup>2 + (snd c)\<^sup>2 = b0\<^sup>2 + b1\<^sup>2 + (u\<^sup>2 + w\<^sup>2)"
    unfolding o by simp
  moreover have "0 \<le> u\<^sup>2 + w\<^sup>2" by simp
  ultimately have "b0\<^sup>2 + b1\<^sup>2 \<le> (fst c)\<^sup>2 + (snd c)\<^sup>2" by simp
  then show ?thesis unfolding b0_def b1_def .
qed

lemma amdahl_finite:
  assumes "length ps = length ts" and "0 \<notin> set ps" and "T1r \<noteq> 0"
  shows "amdahl_serial_fraction nf (map Fl ps) (map Fl ts) (Fl T1r) =
           Inr (Fl (fst (lstsq2 (map (\<lambda>p. (1, 1 / p)) ps) (map (\<lambda>t. t / T1r) ts))))"
proof -
  have X: "map (\<lambda>q. (Fl 1, np_div (Fl 1) q)) (map Fl ps) = map (\<lambda>p. (Fl 1, Fl (1 / p))) ps"
    using assms(2) by (induction ps) auto
  have y: "map (\<lambda>t. np_div t (Fl T1r)) (map Fl ts) = map (\<lambda>t. Fl (t / T1r)) ts"
    using assms(3) by simp
  show ?thesis
    unfolding amdahl_serial_fraction_def Let_def X y lstsq_def
    using assms(1)
    by (simp add: ebind_def list_all_iff comp_def split: prod.splits)
qed

lemma rss_exact:
  "rss (map (\<lambda>p. (1, 1 / p)) ps) (map (\<lambda>p. s + (1 - s) / p) ps) (s, 1 - s) = 0"
  by (induction ps) (auto simp: rss_def)

lemma rss_nonneg: "0 \<le> rss X y c"
  unfolding rss_def by (rule sum_list_nonneg) auto

lemma exact_fit_recovered:
  assumes "0 \<notin> set ps" and "p \<in> set ps" and "q \<in> set ps" and "p \<noteq> q"
  shows "fst (lstsq2 (map (\<lambda>p. (1, 1 / p)) ps) (map (\<lambda>p. s + (1 - s) / p) ps)) = s"
proof -
  let ?X = "map (\<lambda>p. (1, 1 / p)) ps"
  let ?y = "map (\<lambda>p. s + (1 - s) / p) ps"
  let ?b = "lstsq2 ?X ?y"
  have len: "length ?X = length ?y" by simp
  have "rss ?X ?y ?b \<le> rss ?X ?y (s, 1 - s)" by (rule lstsq2_minimises [OF len])
  with rss_exact [of ps s] rss_nonneg [of ?X ?y ?b]
  have "rss ?X ?y (s, 1 - s) - rss ?X ?y ?b = 0" by simp
  then have "sum_list (map (\<lambda>((a, b), v). ((s - fst ?b) * a + (1 - s - snd ?b) * b)\<^sup>2) (zip ?X ?y)) = 0"
    unfolding rss_def fst_conv snd_conv
    using rss_difference [OF lstsq2_normal_equations [OF len], of s "1 - s"] by simp
  from comb_zero [OF this]
  have null: "\<forall>((a, b), v) \<in> set (zip ?X ?y). (s - fst ?b) * a + (1 - s - snd ?b) * b = 0" .
  have row: "(s - fst ?b) + (1 - s - snd ?b) * (1 / r) = 0" if "r \<in> set ps" for r
  proof -
    from that have "((1, 1 / r), s + (1 - s) / r) \<in> set (zip ?X ?y)"
      by (auto simp: zip_map_map zip_same_conv_map image_iff)
    with null show ?thesis by auto
  qed
  from assms have pz: "p \<noteq> 0" "q \<noteq> 0" by auto
  from row [OF assms(2)] row [OF assms(3)]
  have "(1 - s - snd ?b) * (1 / p - 1 / q) = 0" by (simp add: algebra_simps)
  moreover have "1 / p - 1 / q \<noteq> 0" using assms(4) pz by (simp add: field_simps)
  ultimately have "1 - s - snd ?b = 0" by simp
  with row [OF assms(2)] show ?thesis by simp
qed

text \<open>
  C3. On finite data the estimate is the first coefficient of a least-squares fit of
  \<open>Tp / T1\<close> on the columns 1 and \<open>1 / p\<close>, over all configurations at once: the
  coefficients returned minimise the residual sum of squares. For wall times generated as
  \<open>T1 * (s + (1 - s) / p)\<close> on thread counts of which two differ, in particular on
  1, 2, 4, 8, the estimate is \<open>s\<close> itself (in exact arithmetic).
\<close>

theorem amdahl_fit_recovers:
  fixes ps ts qs :: "real list" and T1r s :: real
  shows
  "(length ps = length ts \<and> 0 \<notin> set ps \<and> T1r \<noteq> 0 \<longrightarrow>
      amdahl_serial_fraction nf (map Fl ps) (map Fl ts) (Fl T1r) =
        Inr (Fl (fst (lstsq2 (map (\<lambda>p. (1, 1 / p)) ps) (map (\<lambda>t. t / T1r) ts))))
    \<and> (\<forall>c. rss (map (\<lambda>p. (1, 1 / p)) ps) (map (\<lambda>t. t / T1r) ts)
               (lstsq2 (map (\<lambda>p. (1, 1 / p)) ps) (map (\<lambda>t. t / T1r) ts))
           \<le> rss (map (\<lambda>p. (1, 1 / p)) ps) (map (\<lambda>t. t / T1r) ts) c))
 \<and> (0 \<notin> set qs \<and> (\<exists>p \<in> set qs. \<exists>q \<in> set qs. p \<noteq> q) \<and> T1r \<noteq> 0 \<longrightarrow>
      amdahl_serial_fraction nf (map Fl qs) (map (\<lambda>p. Fl (T1r * (s + (1 - s) / p))) qs) (Fl T1r)
        = Inr (Fl s))
 \<and> (T1r \<noteq> 0 \<longrightarrow>
      amdahl_serial_fraction nf (as_float [1, 2, 4, 8])
        (map (\<lambda>p. Fl (T1r * (s + (1 - s) / p))) [1, 2, 4, 8]) (Fl T1r) = Inr (Fl s))"
proof -
  have general: "amdahl_serial_fraction nf (map Fl qs) (map (\<lambda>p. Fl (T1r * (s + (1 - s) / p))) qs) (Fl T1r)
        = Inr (Fl s)"
    if z: "0 \<notin> set qs" and d: "\<exists>p \<in> set qs. \<exists>q \<in> set qs. p \<noteq> q" and t: "T1r \<noteq> 0"
    for qs :: "real list"
  proof -
    from d obtain p q where pq: "p \<in> set qs" "q \<in> set qs" "p \<noteq> q" by blast
    have y: "map (\<lambda>t. t / T1r) (map (\<lambda>p. T1r * (s + (1 - s) / p)) qs) = map (\<lambda>p. s + (1 - s) / p) qs"
      using t by simp
    have l: "length qs = length (map (\<lambda>p. T1r * (s + (1 - s) / p)) qs)" by simp
    have "amdahl_serial_fraction nf (map Fl qs) (map Fl (map (\<lambda>p. T1r * (s + (1 - s) / p)) qs)) (Fl T1r)
        = Inr (Fl s)"
      using amdahl_finite [OF l z t, of nf] exact_fit_recovered [OF z pq, of s]
      unfolding y by simp
    then show ?thesis by (simp add: comp_def)
  qed
  have c1: "amdahl_serial_fraction nf (map Fl ps) (map Fl ts) (Fl T1r) =
        Inr (Fl (fst (lstsq2 (map (\<lambda>p. (1, 1 / p)) ps) (map (\<lambda>t. t / T1r) ts))))
    \<and> (\<forall>c. rss (map (\<lambda>p. (1, 1 / p)) ps) (map (\<lambda>t. t / T1r) ts)
               (lstsq2 (map (\<lambda>p. (1, 1 / p)) ps) (map (\<lambda>t. t / T1r) ts))
           \<le> rss (map (\<lambda>p. (1, 1 / p)) ps) (map (\<lambda>t. t / T1r) ts) c)"
    if "length ps = length ts" "0 \<notin> set ps" "T1r \<noteq> 0"
    using amdahl_finite [OF that] lstsq2_minimises [of "map (\<lambda>p. (1, 1 / p)) ps" "map (\<lambda>t. t / T1r) ts"] that(1)
    by simp
  have c3: "amdahl_serial_fraction nf (as_float [1, 2, 4, 8])
        (map (\<lambda>p. Fl (T1r * (s + (1 - s) / p))) [1, 2, 4, 8]) (Fl T1r) = Inr (Fl s)"
    if t: "T1r \<noteq> 0"
  proof -
    have "amdahl_serial_fraction nf (map Fl [1, 2, 4, 8])
        (map (\<lambda>p. Fl (T1r * (s + (1 - s) / p))) [1, 2, 4, 8]) (Fl T1r) = Inr (Fl s)"
      by (rule general) (use t in auto)
    then show ?thesis by (simp add: as_float_def)
  qed
  from general c1 c3 show ?thesis by blast
qed

theorem amdahl_fit_recovers_witness:
  "amdahl_serial_fraction never_converges (as_float [1, 2, 4, 8])
     [Fl 2, Fl (11 / 10), Fl (13 / 20), Fl (17 / 40)] (Fl 2) = Inr (Fl (1 / 10))"
  using amdahl_fit_recovers [of "[1, 2, 4, 8]" "[2, 11 / 10, 13 / 20, 17 / 40]" 2 never_converges
      "[1, 2, 4, 8]" "1 / 10"]
  by simp

lemmas text_defs = py_int_def py_float_def strip_def is_space_def is_digit_def digits_val_def
  digit_val_def parse_number_def parse_decimal_def is_e_def lower_def

text \<open>
  C4, as stated, fails: for a table with a single configuration (one distinct thread
  count) the fit does not raise; it returns the minimum-norm solution, and the standalone
  analysis writes \<^verbatim>\<open>amdahl.txt\<close> with its first coefficient, here 1/2.
\<close>

theorem single_configuration_estimated:
  "fst (postprocess_main never_converges None None single_row_table Map.empty) ''amdahl.txt''
     = Some (AmdahlTxt (Fl (1 / 2)))
 \<and> amdahl_step never_converges (as_float [1]) [Fl 2] (Fl 2) Map.empty
     = (Map.empty(''amdahl.txt'' \<mapsto> AmdahlTxt (Fl (1 / 2))), None)"
proof -
  have l: "load single_row_table =
     Inr \<lparr>ngrid = 48, T1_wall = Fl 2, T1_app = NaN, l_hc1 = NaN, l_hp1 = NaN,
      P = [1], Tp = [Fl 2], Sp = [Fl 1], Ep = [Fl 1], Hc = [NaN], Hp = [NaN], Rss = [NaN]\<rparr>"
    by (simp add: load_def single_row_table_def dictreader_def dict_of_row_def
      fieldnames_def req_int_def req_float_def opt_float_def cell_def ebind_def load_row_def
      text_defs Let_def)
  have a: "amdahl_step never_converges [Fl 1] [Fl 2] (Fl 2) fl
     = (fl(''amdahl.txt'' \<mapsto> AmdahlTxt (Fl (1 / 2))), None)" for fl
    by (simp add: amdahl_step_def amdahl_serial_fraction_def lstsq_def lstsq2_def dot_def
        ebind_def Let_def)
  show ?thesis
    by (simp add: postprocess_main_def l postprocess_steps_def a save_speedup_serial_def
        save_speedup_parallel_def save_correctness_table_def save_summary_def throughput_step_def
        ideal_line_def as_float_def argmin_def py_div_def Let_def)
qed

text \<open>
  C4, amended. The estimate step never raises and touches no file but \<^verbatim>\<open>amdahl.txt\<close>:
  when the fit raises, nothing is written; when it returns, its value is written; either
  way the rest of the report runs on. On finite wall times, non-zero thread counts and a
  non-zero baseline the fit always returns, whatever the number of distinct thread counts.
\<close>

theorem amdahl_step_spec:
  fixes ps ts :: "real list" and T1r :: real
  shows
  "snd (amdahl_step nf p Tps T1w files) = None
 \<and> (\<forall>f. f \<noteq> ''amdahl.txt'' \<longrightarrow> fst (amdahl_step nf p Tps T1w files) f = files f)
 \<and> (\<forall>e. amdahl_serial_fraction nf p Tps T1w = Inl e \<longrightarrow>
        amdahl_step nf p Tps T1w files = (files, None))
 \<and> (\<forall>s. amdahl_serial_fraction nf p Tps T1w = Inr s \<longrightarrow>
        amdahl_step nf p Tps T1w files = (files(''amdahl.txt'' \<mapsto> AmdahlTxt s), None))
 \<and> run_steps (amdahl_step nf p Tps T1w # rest) files
      = run_steps rest (fst (amdahl_step nf p Tps T1w files))
 \<and> (length ps = length ts \<and> 0 \<notin> set ps \<and> T1r \<noteq> 0 \<longrightarrow>
      (\<exists>s. amdahl_serial_fraction nf (map Fl ps) (map Fl ts) (Fl T1r) = Inr (Fl s)
          \<and> amdahl_step nf (map Fl ps) (map Fl ts) (Fl T1r) files
              = (files(''amdahl.txt'' \<mapsto> AmdahlTxt (Fl s)), None)))"
proof -
  have ne: "amdahl_serial_fraction nf p Tps T1w \<noteq> Inl SystemExit"
    by (auto simp: amdahl_serial_fraction_def lstsq_def ebind_def Let_def
        split: sum.splits option.splits prod.splits)
  have c3: "amdahl_step nf p Tps T1w files = (files, None)"
    if "amdahl_serial_fraction nf p Tps T1w = Inl e" for e
    using that ne by (auto simp: amdahl_step_def)
  have c4: "amdahl_step nf p Tps T1w files = (files(''amdahl.txt'' \<mapsto> AmdahlTxt s), None)"
    if "amdahl_serial_fraction nf p Tps T1w = Inr s" for s
    using that by (simp add: amdahl_step_def)
  have c5: "run_steps (amdahl_step nf p Tps T1w # rest) files
      = run_steps rest (fst (amdahl_step nf p Tps T1w files))"
    using amdahl_step_no_error [of nf p Tps T1w files]
    by (cases "amdahl_step nf p Tps T1w files") simp
  have c6: "\<exists>s. amdahl_serial_fraction nf (map Fl ps) (map Fl ts) (Fl T1r) = Inr (Fl s)
          \<and> amdahl_step nf (map Fl ps) (map Fl ts) (Fl T1r) files
              = (files(''amdahl.txt'' \<mapsto> AmdahlTxt (Fl s)), None)"
    if "length ps = length ts" "0 \<notin> set ps" "T1r \<noteq> 0"
    using amdahl_finite [OF that, of nf] by (simp add: amdahl_step_def)
  from c3 c4 c5 c6 amdahl_step_no_error [of nf p Tps T1w files] amdahl_step_frame [of _ nf p Tps T1w files]
  show ?thesis by blast
qed

theorem amdahl_step_spec_witness:
  "amdahl_step never_converges (map Fl [1, 1]) (map Fl [2, 3]) (Fl 2) Map.empty
     = (Map.empty(''amdahl.txt'' \<mapsto> AmdahlTxt (Fl (5 / 8))), None)
 \<and> amdahl_step never_converges [Fl 0] [Fl 2] (Fl 2) Map.empty = (Map.empty, None)"
proof -
  have f: "amdahl_serial_fraction never_converges (map Fl [1, 1]) (map Fl [2, 3]) (Fl 2) = Inr (Fl (5 / 8))"
    by (simp add: amdahl_serial_fraction_def lstsq_def lstsq2_def dot_def ebind_def Let_def)
  have e: "amdahl_serial_fraction never_converges [Fl 0] [Fl 2] (Fl 2) = Inl LinAlgError"
    by (simp add: amdahl_serial_fraction_def lstsq_def never_converges_def ebind_def Let_def
        inf_of_sign_def)
  from amdahl_step_spec [of never_converges "map Fl [1, 1]" "map Fl [2, 3]" "Fl 2" Map.empty "[]" "[1, 1]" "[2, 3]" 2]
    amdahl_step_spec [of never_converges "[Fl 0]" "[Fl 2]" "Fl 2" Map.empty "[]" "[1, 1]" "[2, 3]" 2] f e
  show ?thesis by simp
qed

section \<open>Properties: the table written and read back\<close>

lemma digit_cases: "k < 10 \<Longrightarrow> k = 0 \<or> k = 1 \<or> k = 2 \<or> k = 3 \<or> k = 4 \<or> k = 5 \<or> k = 6 \<or> k = 7 \<or> k = 8 \<or> k = (9::nat)"
  by arith

lemma digit_char:
  assumes "k < 10"
  shows "is_digit (char_of (48 + k))" and "digit_val (char_of (48 + k)) = k"
    and "\<not> is_space (char_of (48 + k))" and "char_of (48 + k) \<noteq> CHR ''-''"
    and "char_of (48 + k) \<noteq> CHR ''+''"
  using digit_cases [OF assms]
  by (elim disjE; hypsubst; simp add: is_digit_def digit_val_def is_space_def char_of_def
      bit_iff_odd)+

lemma nat_digits_digits: "list_all is_digit (nat_digits n)"
proof (induction n rule: nat_digits.induct)
  case (1 n)
  show ?case
  proof (cases "n < 10")
    case True
    then show ?thesis by (subst nat_digits.simps) (simp add: digit_char)
  next
    case False
    with 1 show ?thesis by (subst nat_digits.simps) (simp add: digit_char)
  qed
qed

lemma nat_digits_nonempty: "nat_digits n \<noteq> []"
  by (subst nat_digits.simps) simp

lemma digits_val_snoc: "digits_val (ds @ [c]) = 10 * digits_val ds + digit_val c"
  by (simp add: digits_val_def)

lemma digits_val_nat_digits: "digits_val (nat_digits n) = n"
proof (induction n rule: nat_digits.induct)
  case (1 n)
  show ?case
  proof (cases "n < 10")
    case True
    then show ?thesis by (subst nat_digits.simps) (simp add: digits_val_def digit_char)
  next
    case False
    with 1 show ?thesis
      by (subst nat_digits.simps) (simp add: digits_val_snoc digit_char)
  qed
qed

lemma strip_id:
  assumes "s \<noteq> []" and "\<not> is_space (hd s)" and "\<not> is_space (last s)"
  shows "strip s = s"
proof -
  from assms(1,2) have a: "dropWhile is_space s = s" by (cases s) auto
  from assms(1,3) have "dropWhile is_space (rev s) = rev s" by (cases "rev s") (auto simp: last_rev [symmetric] hd_rev)
  with a show ?thesis by (simp add: strip_def)
qed

lemma digit_not_space: "is_digit c \<Longrightarrow> \<not> is_space c"
  unfolding is_digit_def
  by (simp only: list.set insert_iff empty_iff simp_thms, elim disjE; hypsubst; simp add: is_space_def)

lemma digit_not_sign: "is_digit c \<Longrightarrow> c \<noteq> CHR ''-'' \<and> c \<noteq> CHR ''+''"
  unfolding is_digit_def
  by (simp only: list.set insert_iff empty_iff simp_thms, elim disjE; hypsubst; simp)

lemma digits_no_space: "list_all is_digit ds \<Longrightarrow> c \<in> set ds \<Longrightarrow> \<not> is_space c"
  by (simp add: list_all_iff digit_not_space)

lemma py_int_str_int: "py_int (str_int i) = Inr i"
proof -
  let ?d = "nat_digits (nat \<bar>i\<bar>)"
  have dn: "?d \<noteq> []" by (rule nat_digits_nonempty)
  have dd: "list_all is_digit ?d" by (rule nat_digits_digits)
  have "is_digit (hd ?d)" using dn dd by (cases ?d) auto
  then have hd: "\<not> is_space (hd ?d)" "hd ?d \<noteq> CHR ''-''" "hd ?d \<noteq> CHR ''+''"
    using digit_not_space digit_not_sign by blast+
  have lst: "\<not> is_space (last ?d)" using digits_no_space [OF dd] dn by simp
  show ?thesis
  proof (cases "i < 0")
    case True
    then have s: "str_int i = CHR ''-'' # ?d" by (simp add: str_int_def abs_if)
    have "strip (str_int i) = str_int i"
      by (rule strip_id) (use s dn lst in \<open>auto simp: is_space_def\<close>)
    then show ?thesis using True dn dd s
      by (simp add: py_int_def digits_val_nat_digits)
  next
    case False
    then have s: "str_int i = ?d" by (simp add: str_int_def abs_if)
    have "strip (str_int i) = str_int i"
      by (rule strip_id) (use s dn lst hd in auto)
    moreover have "split_sign ?d = (False, ?d)" using dn hd by (cases ?d) auto
    ultimately show ?thesis using False dn dd s
      by (simp add: py_int_def digits_val_nat_digits)
  qed
qed

lemma str_int_nonempty: "str_int i \<noteq> []"
  by (simp add: str_int_def nat_digits_nonempty)

lemma printable_nonfinite: "printable fin NaN" "printable fin PInf" "printable fin NInf"
  by (simp_all add: printable_def py_repr_def py_float_def strip_def is_space_def lower_def)

text \<open>The cells of a written row, and the dictionary the reader makes of them.\<close>

lemma written_row:
  "dictwriter_row fieldnames (row_dict fin N b r) =
     Inr [str_int N, py_repr fin (T1_wall_s b), py_repr fin (T1_app_s b), py_repr fin (hc1 b),
          py_repr fin (hp1 b), str_int (threads r), py_repr fin (Tp_wall_s r),
          py_repr fin (Tp_app_s r), py_repr fin (row_speedup r), py_repr fin (row_efficiency r),
          py_repr fin (row_maxrss_kb r), py_repr fin (hc_med r), py_repr fin (hp_med r)]"
  by (simp add: dictwriter_row_def row_dict_def fieldnames_def)

lemma read_row:
  "dict_of_row fieldnames [c0, c1, c2, c3, c4, c5, c6, c7, c8, c9, c10, c11, c12] =
     [''NGRID'' \<mapsto> Some c0, ''T1_wall_s'' \<mapsto> Some c1, ''T1_app_s'' \<mapsto> Some c2,
      ''hc1'' \<mapsto> Some c3, ''hp1'' \<mapsto> Some c4, ''threads'' \<mapsto> Some c5,
      ''Tp_wall_s'' \<mapsto> Some c6, ''Tp_app_s'' \<mapsto> Some c7, ''speedup'' \<mapsto> Some c8,
      ''efficiency'' \<mapsto> Some c9, ''maxrss_kb'' \<mapsto> Some c10, ''hc_med'' \<mapsto> Some c11,
      ''hp_med'' \<mapsto> Some c12]"
  by (rule ext) (simp add: dict_of_row_def fieldnames_def)

lemma write_csv_cells:
  "write_csv fin N b rows = Inr (fieldnames # map (written_cells fin N b) rows)"
proof -
  have "dictwriter_rows fieldnames (map (row_dict fin N b) rows)
          = Inr (map (written_cells fin N b) rows)"
    by (induction rows) (simp_all add: written_row written_cells_def ebind_def)
  then show ?thesis by (simp add: write_csv_def ebind_def)
qed

lemma dictreader_written:
  "dictreader (fieldnames # map (written_cells fin N b) rows)
     = map (\<lambda>r. dict_of_row fieldnames (written_cells fin N b r)) rows"
proof -
  have "filter (\<lambda>r. r \<noteq> []) (map (written_cells fin N b) rows) = map (written_cells fin N b) rows"
    by (induction rows) (simp_all add: written_cells_def)
  then show ?thesis by (simp add: dictreader_def comp_def)
qed

lemma written_lookup:
  fixes fin N b r
  defines "D \<equiv> dict_of_row fieldnames (written_cells fin N b r)"
  shows "D ''NGRID'' = Some (Some (str_int N))"
    and "D ''T1_wall_s'' = Some (Some (py_repr fin (T1_wall_s b)))"
    and "D ''T1_app_s'' = Some (Some (py_repr fin (T1_app_s b)))"
    and "D ''hc1'' = Some (Some (py_repr fin (hc1 b)))"
    and "D ''hp1'' = Some (Some (py_repr fin (hp1 b)))"
    and "D ''threads'' = Some (Some (str_int (threads r)))"
    and "D ''Tp_wall_s'' = Some (Some (py_repr fin (Tp_wall_s r)))"
    and "D ''speedup'' = Some (Some (py_repr fin (row_speedup r)))"
    and "D ''efficiency'' = Some (Some (py_repr fin (row_efficiency r)))"
    and "D ''maxrss_kb'' = Some (Some (py_repr fin (row_maxrss_kb r)))"
    and "D ''hc_med'' = Some (Some (py_repr fin (hc_med r)))"
    and "D ''hp_med'' = Some (Some (py_repr fin (hp_med r)))"
  unfolding D_def written_cells_def read_row by simp_all

lemma load_written_row:
  assumes "printable fin (Tp_wall_s r)" "printable fin (row_speedup r)"
    "printable fin (row_efficiency r)" "printable fin (row_maxrss_kb r)"
    "printable fin (hc_med r)" "printable fin (hp_med r)"
  shows "load_row (dict_of_row fieldnames (written_cells fin N b r)) =
     Inr \<lparr>c_P = threads r, c_Tp = Tp_wall_s r, c_Sp = row_speedup r, c_Ep = row_efficiency r,
          c_Hc = hc_med r, c_Hp = hp_med r, c_Rss = row_maxrss_kb r\<rparr>"
  using assms unfolding load_row_def printable_def
  by (simp add: ebind_def req_int_def req_float_def opt_float_def cell_def written_lookup
      py_int_str_int)

lemma load_written_rows:
  assumes "\<forall>r \<in> set rows. printable fin (Tp_wall_s r) \<and> printable fin (row_speedup r)
    \<and> printable fin (row_efficiency r) \<and> printable fin (row_maxrss_kb r)
    \<and> printable fin (hc_med r) \<and> printable fin (hp_med r)"
  shows "load_rows (map (\<lambda>r. dict_of_row fieldnames (written_cells fin N b r)) rows) =
     Inr (map (\<lambda>r. \<lparr>c_P = threads r, c_Tp = Tp_wall_s r, c_Sp = row_speedup r,
                     c_Ep = row_efficiency r, c_Hc = hc_med r, c_Hp = hp_med r,
                     c_Rss = row_maxrss_kb r\<rparr>) rows)"
  using assms by (induction rows) (simp_all add: load_written_row ebind_def)

lemma load_written_baseline:
  assumes "printable fin (T1_wall_s b)" "printable fin (T1_app_s b)" "printable fin (hc1 b)"
    "printable fin (hp1 b)"
  shows "req_int (dict_of_row fieldnames (written_cells fin N b r)) ''NGRID'' = Inr N"
    and "req_float (dict_of_row fieldnames (written_cells fin N b r)) ''T1_wall_s'' = Inr (T1_wall_s b)"
    and "req_float (dict_of_row fieldnames (written_cells fin N b r)) ''T1_app_s'' = Inr (T1_app_s b)"
    and "opt_float (dict_of_row fieldnames (written_cells fin N b r)) ''hc1'' = Inr (hc1 b)"
    and "opt_float (dict_of_row fieldnames (written_cells fin N b r)) ''hp1'' = Inr (hp1 b)"
  using assms unfolding printable_def
  by (simp_all add: ebind_def req_int_def req_float_def opt_float_def cell_def written_lookup
      py_int_str_int)

text \<open>
  C6, as stated, fails for one field: the per-configuration median internal duration is
  written to the table but \<^verbatim>\<open>load\<close> does not read it, so two reports that differ in it
  (5 s against 7 s) reload to the same data.
\<close>

theorem internal_duration_lost:
  "ebind (write_csv repr_example 48 example_baseline [example_row]) load
     = Inr (reloaded 48 example_baseline [example_row])
 \<and> ebind (write_csv repr_example 48 example_baseline [example_row\<lparr>Tp_app_s := Fl 7\<rparr>]) load
     = Inr (reloaded 48 example_baseline [example_row])
 \<and> Tp_app_s example_row = Fl 5"
proof -
  have p: "printable repr_example (Fl 10)" "printable repr_example (Fl 5)"
    "printable repr_example (Fl 2)" "printable repr_example (Fl 1)"
    by (simp_all add: printable_def py_repr_def repr_example_def text_defs Let_def)
  note np = printable_nonfinite [of repr_example]
  have b: "req_int (dict_of_row fieldnames (written_cells repr_example 48 example_baseline r)) ''NGRID'' = Inr 48"
     "req_float (dict_of_row fieldnames (written_cells repr_example 48 example_baseline r)) ''T1_wall_s'' = Inr (Fl 10)"
     "req_float (dict_of_row fieldnames (written_cells repr_example 48 example_baseline r)) ''T1_app_s'' = Inr NaN"
     "opt_float (dict_of_row fieldnames (written_cells repr_example 48 example_baseline r)) ''hc1'' = Inr (Fl 1)"
     "opt_float (dict_of_row fieldnames (written_cells repr_example 48 example_baseline r)) ''hp1'' = Inr NaN"
    for r
    using load_written_baseline [of repr_example example_baseline 48 r] p np
    by (simp_all add: example_baseline_def)
  have r: "load_row (dict_of_row fieldnames (written_cells repr_example 48 example_baseline (example_row\<lparr>Tp_app_s := v\<rparr>)))
      = Inr \<lparr>c_P = 2, c_Tp = Fl 5, c_Sp = Fl 2, c_Ep = Fl 1, c_Hc = Fl 1, c_Hp = NaN, c_Rss = NaN\<rparr>" for v
    using load_written_row [of repr_example "example_row\<lparr>Tp_app_s := v\<rparr>" 48 example_baseline] p np
    by (simp add: example_row_def)
  have rhs: "reloaded 48 example_baseline [example_row] =
      \<lparr>ngrid = 48, T1_wall = Fl 10, T1_app = NaN, l_hc1 = Fl 1, l_hp1 = NaN,
       P = [2], Tp = [Fl 5], Sp = [Fl 2], Ep = [Fl 1], Hc = [Fl 1], Hp = [NaN], Rss = [NaN]\<rparr>"
    by (simp add: reloaded_def example_baseline_def example_row_def)
  have l: "load (fieldnames # [written_cells repr_example 48 example_baseline (example_row\<lparr>Tp_app_s := v\<rparr>)])
      = Inr (reloaded 48 example_baseline [example_row])" for v
    unfolding rhs load_def dictreader_written [of repr_example 48 example_baseline "[example_row\<lparr>Tp_app_s := v\<rparr>]", simplified]
    by (simp add: b r ebind_def)
  have e: "example_row\<lparr>Tp_app_s := Fl 5\<rparr> = example_row" by (simp add: example_row_def)
  show ?thesis
    using l [of "Fl 5"] l [of "Fl 7"] unfolding e
    by (simp add: write_csv_cells ebind_def example_row_def)
qed

text \<open>
  C6, amended. For a report with at least one configuration whose reloaded floats print
  to text that reads back as the same float, writing the table and loading it gives the
  grid size, the serial baseline and, per configuration and in the same order, thread
  count, wall time, speedup, efficiency, peak memory and both correctness scalars,
  unchanged; the serial-fraction fit on the reloaded data is the fit on the live data.
\<close>

theorem table_round_trip:
  assumes "rows \<noteq> []" and "\<forall>x \<in> reloaded_floats b rows. printable fin x"
  shows "\<exists>g L. write_csv fin N b rows = Inr g \<and> load g = Inr L \<and> L = reloaded N b rows
       \<and> P L = map threads rows \<and> Tp L = map Tp_wall_s rows
       \<and> amdahl_serial_fraction nf (as_float (P L)) (Tp L) (T1_wall L)
           = amdahl_serial_fraction nf (as_float (map threads rows)) (map Tp_wall_s rows)
               (T1_wall_s b)"
proof -
  from assms(1) obtain r0 rest where rows: "rows = r0 # rest" by (cases rows) auto
  have pb: "printable fin (T1_wall_s b)" "printable fin (T1_app_s b)" "printable fin (hc1 b)"
    "printable fin (hp1 b)"
    using assms(2) by (simp_all add: reloaded_floats_def)
  have pr: "\<forall>r \<in> set rows. printable fin (Tp_wall_s r) \<and> printable fin (row_speedup r)
    \<and> printable fin (row_efficiency r) \<and> printable fin (row_maxrss_kb r)
    \<and> printable fin (hc_med r) \<and> printable fin (hp_med r)"
    using assms(2) by (auto simp: reloaded_floats_def)
  have "load (fieldnames # map (written_cells fin N b) rows) = Inr (reloaded N b rows)"
    unfolding load_def dictreader_written
    using load_written_rows [OF pr, of N b] load_written_baseline [OF pb, of N r0]
    by (simp add: rows ebind_def reloaded_def comp_def)
  with write_csv_cells [of fin N b rows] show ?thesis by (simp add: reloaded_def)
qed

theorem table_round_trip_witness:
  "ebind (write_csv repr_example 48 example_baseline [example_row, example_row\<lparr>threads := 4\<rparr>]) load
     = Inr (reloaded 48 example_baseline [example_row, example_row\<lparr>threads := 4\<rparr>])"
proof -
  have p: "printable repr_example (Fl 10)" "printable repr_example (Fl 5)"
    "printable repr_example (Fl 2)" "printable repr_example (Fl 1)"
    by (simp_all add: printable_def py_repr_def repr_example_def text_defs Let_def)
  have h: "\<forall>x \<in> reloaded_floats example_baseline [example_row, example_row\<lparr>threads := 4\<rparr>].
             printable repr_example x"
    using p printable_nonfinite [of repr_example]
    by (simp add: reloaded_floats_def example_baseline_def example_row_def)
  have n: "[example_row, example_row\<lparr>threads := 4\<rparr>] \<noteq> []" by simp
  from table_round_trip [OF n h, of 48 never_converges] show ?thesis
    by (auto simp: ebind_def)
qed

end
